theory Spec2Isabelle
  imports Main "HOL-Library.Char_ord" "HOL-Library.List_Lexorder" "HOL-Library.AList"
begin

section \<open>Python strings\<close>

text \<open>
  Python \<open>str\<close> values are modelled as \<^typ>\<open>string\<close>.  The functions of this section are the
  string methods that \<open>graph.py\<close> and \<open>checks.py\<close> call, with Python's results written out.
\<close>

definition startswith :: "string \<Rightarrow> string \<Rightarrow> bool" where
  \<comment> \<open>\<open>s.startswith(p)\<close>\<close>
  "startswith s p = (take (length p) s = p)"

definition endswith :: "string \<Rightarrow> string \<Rightarrow> bool" where
  \<comment> \<open>\<open>s.endswith(p)\<close>\<close>
  "endswith s p = (length p \<le> length s \<and> drop (length s - length p) s = p)"

fun str_contains :: "string \<Rightarrow> string \<Rightarrow> bool" where
  \<comment> \<open>\<open>p in s\<close>: \<open>p\<close> occurs in \<open>s\<close> as a contiguous substring\<close>
  "str_contains p [] = (p = [])"
| "str_contains p (c # cs) = (startswith (c # cs) p \<or> str_contains p cs)"

fun split_sep :: "char \<Rightarrow> string \<Rightarrow> string list" where
  \<comment> \<open>\<open>s.split(c)\<close> for a one-character separator: never the empty list\<close>
  "split_sep c [] = [[]]"
| "split_sep c (x # xs) =
     (if x = c then [] # split_sep c xs
      else (x # hd (split_sep c xs)) # tl (split_sep c xs))"

fun join_sep :: "string \<Rightarrow> string list \<Rightarrow> string" where
  \<comment> \<open>\<open>sep.join(xs)\<close>\<close>
  "join_sep sep [] = []"
| "join_sep sep [x] = x"
| "join_sep sep (x # y # ys) = x @ sep @ join_sep sep (y # ys)"

fun split_first :: "string \<Rightarrow> string \<Rightarrow> string" where
  \<comment> \<open>\<open>s.split(p)[0]\<close> for a non-empty separator \<open>p\<close>: the text before the first occurrence
      of \<open>p\<close>, all of \<open>s\<close> when there is none\<close>
  "split_first p [] = []"
| "split_first p (c # cs) = (if startswith (c # cs) p then [] else c # split_first p cs)"

definition str_replace :: "char \<Rightarrow> string \<Rightarrow> string \<Rightarrow> string" where
  \<comment> \<open>\<open>s.replace(c, r)\<close> for a one-character \<open>c\<close>\<close>
  "str_replace c r s = concat (map (\<lambda>x. if x = c then r else [x]) s)"

definition rpartition_head :: "char \<Rightarrow> string \<Rightarrow> string" where
  \<comment> \<open>\<open>s.rpartition(c)[0]\<close>: the text before the last \<open>c\<close>, empty when \<open>s\<close> has no \<open>c\<close>\<close>
  "rpartition_head c s = rev (tl (dropWhile (\<lambda>x. x \<noteq> c) (rev s)))"

section \<open>The path functions of \<open>os.path\<close> (POSIX)\<close>

definition os_sep :: string where
  "os_sep = ''/''"

definition os_path_join :: "string \<Rightarrow> string \<Rightarrow> string" where
  \<comment> \<open>\<open>posixpath.join(a, b)\<close>\<close>
  "os_path_join a b =
     (if startswith b os_sep then b
      else if a = [] \<or> endswith a os_sep then a @ b
      else a @ os_sep @ b)"

definition os_path_dirname :: "string \<Rightarrow> string" where
  \<comment> \<open>\<open>posixpath.dirname(p)\<close>: the head up to and including the last slash, with its trailing
      slashes stripped unless it consists of slashes only\<close>
  "os_path_dirname p =
     (let head = rev (dropWhile (\<lambda>x. x \<noteq> CHR ''/'') (rev p))
      in if head \<noteq> [] \<and> head \<noteq> replicate (length head) (CHR ''/'')
         then rev (dropWhile (\<lambda>x. x = CHR ''/'') (rev head))
         else head)"


section \<open>Errors and the world outside the program\<close>

datatype error =
    OSError                  \<comment> \<open>\<open>open\<close> or \<open>os.listdir\<close> on a path that cannot be read\<close>
  | SyntaxError              \<comment> \<open>\<open>ast.parse\<close> on a text that is not Python\<close>
  | KeyError                 \<comment> \<open>a dictionary read at a missing key\<close>
  | AttributeError           \<comment> \<open>a method call on \<open>None\<close>\<close>
  | CircularDependencyError  \<comment> \<open>raised by \<open>toposort\<close>\<close>

text \<open>
  The syntax tree that \<open>ast.parse\<close> returns, as far as the two visitors look at it.  \<open>Import\<close>
  and \<open>ImportFrom\<close> carry the fields the visitors read; \<open>Node\<close> is a node of any other class,
  with its child nodes in the order in which \<open>generic_visit\<close> walks them.
\<close>

datatype ast_alias = Alias (alias_name: string) (alias_asname: "string option")

datatype ast_node =
    Import "ast_alias list"
  | ImportFrom "string option" "ast_alias list" nat
  | Node "ast_node list"

text \<open>
  What the program reads from its surroundings: the file system through \<open>os\<close> and \<open>open\<close>, the
  parser, and the interpreter's \<open>sys\<close> module.  A run sees one such environment, which the
  program never writes to.
\<close>

record pyenv =
  path_exists :: "string \<Rightarrow> bool"
    \<comment> \<open>\<open>os.path.exists\<close>\<close>
  path_isfile :: "string \<Rightarrow> bool"
    \<comment> \<open>\<open>os.path.isfile\<close>\<close>
  listdir :: "string \<Rightarrow> string list option"
    \<comment> \<open>\<open>os.listdir\<close>; \<open>None\<close> where it raises\<close>
  walk :: "string \<Rightarrow> (string \<times> string list) list"
    \<comment> \<open>\<open>os.walk\<close>: the pairs \<open>(root, files)\<close> in the order it yields them\<close>
  read_file :: "string \<Rightarrow> string option"
    \<comment> \<open>\<open>open(p).read()\<close>; \<open>None\<close> where it raises\<close>
  ast_parse :: "string \<Rightarrow> ast_node option"
    \<comment> \<open>\<open>ast.parse(text, file_name)\<close>; \<open>None\<close> where it raises\<close>
  ast_parse_type_comments :: "string \<Rightarrow> ast_node option"
    \<comment> \<open>\<open>ast.parse(source, type_comments=True)\<close>; \<open>None\<close> where it raises\<close>
  sys_modules :: "string set"
  builtin_module_names :: "string set"
  sys_path :: "string list"

section \<open>\<open>graph.py\<close>: the data\<close>

datatype ImportInfo = ImportInfo (info_name: string) (info_level: "nat option")
  \<comment> \<open>\<open>level\<close> is \<open>None\<close> for a plain \<open>import\<close>\<close>

record Module =
  mod_name :: string
  file_name :: string
  is_package :: bool
  content :: string
  mod_imports :: "string set"

datatype module_dict = ModuleDict (dict_name: string) (dict_is_package: bool) (dict_code: string)
  \<comment> \<open>the dictionary \<open>{'name': .., 'is_package': .., 'code': ..}\<close> of \<open>Module.to_dict\<close>\<close>

definition to_dict :: "Module \<Rightarrow> module_dict" where
  "to_dict m = ModuleDict (mod_name m) (is_package m) (content m)"

text \<open>
  The fields of \<open>ModuleGraph\<close>.  The dictionary \<open>_modules\<close> is an association list in insertion
  order, written with \<^const>\<open>AList.update\<close> (a key that is already there keeps its place, as in
  Python) and read with \<^const>\<open>map_of\<close>; so is \<open>_module_cache\<close>, whose keys are the pairs
  \<open>(imp_name, extrapath)\<close>.
\<close>

record ModuleGraph =
  modules :: "(string \<times> Module) list"
  module_cache :: "((string \<times> string option) \<times> string) list"
  paths :: "string list"

definition init_graph :: "pyenv \<Rightarrow> ModuleGraph" where
  \<comment> \<open>\<open>ModuleGraph.__init__\<close>\<close>
  "init_graph env = \<lparr>modules = [], module_cache = [], paths = sys_path env\<rparr>"

section \<open>\<open>graph.py\<close>: \<open>ImportFinder\<close>\<close>

fun visit :: "ast_node \<Rightarrow> ImportInfo list \<Rightarrow> ImportInfo list"
  and visit_children :: "ast_node list \<Rightarrow> ImportInfo list \<Rightarrow> ImportInfo list" where
  "visit (Import names) acc = acc @ map (\<lambda>a. ImportInfo (alias_name a) None) names"
| "visit (ImportFrom module names level) acc =
     acc @ map (\<lambda>a. ImportInfo
                  (case module of
                     None \<Rightarrow> alias_name a
                   | Some m \<Rightarrow> if m = [] then alias_name a else m @ ''.'' @ alias_name a)
                  (Some level)) names"
| "visit (Node children) acc = visit_children children acc"
| "visit_children [] acc = acc"
| "visit_children (c # cs) acc = visit_children cs (visit c acc)"

definition list_imports :: "pyenv \<Rightarrow> string \<Rightarrow> string \<Rightarrow> error + ImportInfo list" where
  \<comment> \<open>\<open>ImportFinder(file_name, file_path).list_imports\<close>\<close>
  "list_imports env fname fpath =
     (case read_file env (os_path_join fpath fname) of
        None \<Rightarrow> Inl OSError
      | Some text \<Rightarrow>
          (case ast_parse env text of
             None \<Rightarrow> Inl SyntaxError
           | Some root \<Rightarrow> Inr (visit root [])))"

section \<open>\<open>graph.py\<close>: name derivation\<close>

definition contain_python :: "string list \<Rightarrow> bool" where
  \<comment> \<open>\<open>any('.py' in file and file != 'setup.py' for file in ...)\<close>\<close>
  "contain_python files = list_ex (\<lambda>file. str_contains ''.py'' file \<and> file \<noteq> ''setup.py'') files"

function find_module_name_loop :: "pyenv \<Rightarrow> string list \<Rightarrow> string list \<Rightarrow> error + string list" where
  \<comment> \<open>the \<open>while elements\<close> loop; the result is \<open>module_name\<close> before it is reversed\<close>
  "find_module_name_loop env elements acc =
     (if elements = [] then Inr acc
      else
        (case listdir env (join_sep os_sep (butlast elements)) of
           None \<Rightarrow> Inl OSError
         | Some files \<Rightarrow>
             if contain_python files
             then find_module_name_loop env (butlast elements) (acc @ [last elements])
             else Inr (acc @ [last elements])))"
  by pat_completeness auto
termination
  by (relation "measure (\<lambda>(env, elements, acc). length elements)") auto

definition find_module_name :: "pyenv \<Rightarrow> string \<Rightarrow> string \<Rightarrow> error + string" where
  \<comment> \<open>\<open>ModuleGraph._find_module_name\<close>\<close>
  "find_module_name env fname fpath =
     (case find_module_name_loop env (split_sep CHR ''/'' fpath) [] of
        Inl e \<Rightarrow> Inl e
      | Inr names \<Rightarrow>
          (let prefix = join_sep ''.'' (rev names) in
           if str_contains ''__init__.py'' fname then Inr prefix
           else
             (let stem = split_first ''.py'' fname;
                  stem' = (if str_contains os_sep stem then last (split_sep CHR ''/'' stem) else stem)
              in Inr (prefix @ ''.'' @ stem'))))"

section \<open>\<open>graph.py\<close>: the resolver\<close>

definition truthy :: "string option \<Rightarrow> bool" where
  \<comment> \<open>\<open>if result:\<close> for a result that is \<open>None\<close> or a string\<close>
  "truthy r = (case r of None \<Rightarrow> False | Some s \<Rightarrow> s \<noteq> [])"

definition cache_result ::
  "pyenv \<Rightarrow> ModuleGraph \<Rightarrow> string \<Rightarrow> string option \<Rightarrow> string \<Rightarrow> string
    \<Rightarrow> error + (string option \<times> ModuleGraph)" where
  \<comment> \<open>the three lines both branches of \<open>_get_name_via_module\<close> run once \<open>full_path\<close> exists:
      derive the name, store it in the cache, return it\<close>
  "cache_result env g imp_name extrapath imp_filename full_path =
     (case find_module_name env imp_filename (os_path_dirname full_path) of
        Inl e \<Rightarrow> Inl e
      | Inr name \<Rightarrow>
          Inr (Some name,
               g\<lparr>module_cache := AList.update (imp_name, extrapath) name (module_cache g)\<rparr>))"

fun get_name_via_module_loop ::
  "pyenv \<Rightarrow> ModuleGraph \<Rightarrow> string \<Rightarrow> string option \<Rightarrow> string \<Rightarrow> string list
    \<Rightarrow> error + (string option \<times> ModuleGraph)" where
  \<comment> \<open>\<open>for path in self._paths\<close>\<close>
  "get_name_via_module_loop env g imp_name extrapath imp_filename [] = Inr (None, g)"
| "get_name_via_module_loop env g imp_name extrapath imp_filename (path # rest) =
     (if \<not> path_isfile env path \<and> path_exists env (os_path_join path imp_filename)
      then cache_result env g imp_name extrapath imp_filename (os_path_join path imp_filename)
      else get_name_via_module_loop env g imp_name extrapath imp_filename rest)"

definition get_name_via_module ::
  "pyenv \<Rightarrow> ModuleGraph \<Rightarrow> string \<Rightarrow> string option \<Rightarrow> error + (string option \<times> ModuleGraph)" where
  \<comment> \<open>\<open>ModuleGraph._get_name_via_module\<close>\<close>
  "get_name_via_module env g imp_name extrapath =
     (let imp_filename = str_replace CHR ''.'' os_sep imp_name @ ''.py'' in
      if truthy extrapath \<and> path_exists env (os_path_join (the extrapath) imp_filename)
      then cache_result env g imp_name extrapath imp_filename
             (os_path_join (the extrapath) imp_filename)
      else get_name_via_module_loop env g imp_name extrapath imp_filename (paths g))"

definition get_name_via_package ::
  "pyenv \<Rightarrow> ModuleGraph \<Rightarrow> string \<Rightarrow> string option \<Rightarrow> error + (string option \<times> ModuleGraph)" where
  \<comment> \<open>\<open>ModuleGraph._get_name_via_package\<close>\<close>
  "get_name_via_package env g imp_name extrapath =
     get_name_via_module env g (imp_name @ ''.__init__'') extrapath"

lemma rpartition_head_shorter: "name \<noteq> [] \<Longrightarrow> length (rpartition_head c name) < length name"
proof -
  assume ne: "name \<noteq> []"
  let ?d = "dropWhile (\<lambda>x. x \<noteq> c) (rev name)"
  have le: "length ?d \<le> length name"
    using length_dropWhile_le [of "\<lambda>x. x \<noteq> c" "rev name"] by simp
  have pos: "0 < length name"
    using ne by simp
  have "length (rpartition_head c name) = length ?d - 1"
    unfolding rpartition_head_def by simp
  with le pos show ?thesis
    by linarith
qed

function find_module_of_import_loop ::
  "pyenv \<Rightarrow> ModuleGraph \<Rightarrow> string \<Rightarrow> string option \<Rightarrow> string
    \<Rightarrow> error + (string option \<times> ModuleGraph)" where
  \<comment> \<open>\<open>while name\<close>, and the \<open>return imp_name\<close> after it\<close>
  "find_module_of_import_loop env g imp_name extrapath name =
     (if name = [] then Inr (Some imp_name, g)
      else
        (case get_name_via_module env g name extrapath of
           Inl e \<Rightarrow> Inl e
         | Inr (result, g1) \<Rightarrow>
             if truthy result then Inr (result, g1)
             else
               (case get_name_via_package env g1 name extrapath of
                  Inl e \<Rightarrow> Inl e
                | Inr (result2, g2) \<Rightarrow>
                    if truthy result2 then Inr (result2, g2)
                    else find_module_of_import_loop env g2 imp_name extrapath
                           (rpartition_head CHR ''.'' name))))"
  by pat_completeness auto
termination
  by (relation "measure (\<lambda>(env, g, imp_name, extrapath, name). length name)")
     (auto simp: rpartition_head_shorter)

definition extra_path :: "nat option \<Rightarrow> string \<Rightarrow> string option" where
  \<comment> \<open>\<open>extrapath\<close>: \<open>None\<close> unless the level is above 1, else the origin directory with
      \<open>level - 1\<close> trailing segments cut off (\<open>elements[0:-k]\<close> is empty when \<open>k\<close> reaches the length)\<close>
  "extra_path imp_level fpath =
     (case imp_level of
        None \<Rightarrow> None
      | Some l \<Rightarrow>
          if l > 1
          then (let elements = split_sep CHR ''/'' fpath
                in Some (join_sep os_sep (take (length elements - (l - 1)) elements)))
          else None)"

definition find_module_of_import ::
  "pyenv \<Rightarrow> ModuleGraph \<Rightarrow> string \<Rightarrow> nat option \<Rightarrow> string
    \<Rightarrow> error + (string option \<times> ModuleGraph)" where
  \<comment> \<open>\<open>ModuleGraph._find_module_of_import\<close>\<close>
  "find_module_of_import env g imp_name imp_level fpath =
     (if imp_name \<in> sys_modules env \<or> imp_name \<in> builtin_module_names env then Inr (None, g)
      else if endswith imp_name ''.*'' then Inr (Some (take (length imp_name - 2) imp_name), g)
      else
        (let extrapath = extra_path imp_level fpath in
         case map_of (module_cache g) (imp_name, extrapath) of
           Some cached \<Rightarrow> Inr (Some cached, g)
         | None \<Rightarrow> find_module_of_import_loop env g imp_name extrapath imp_name))"

section \<open>\<open>graph.py\<close>: scanning\<close>

fun resolve_imports ::
  "pyenv \<Rightarrow> ModuleGraph \<Rightarrow> string \<Rightarrow> ImportInfo list \<Rightarrow> error + (string option list \<times> ModuleGraph)" where
  \<comment> \<open>the calls of the set comprehension over \<open>import_infos\<close>, in list order\<close>
  "resolve_imports env g fpath [] = Inr ([], g)"
| "resolve_imports env g fpath (imp # imps) =
     (case find_module_of_import env g (info_name imp) (info_level imp) fpath of
        Inl e \<Rightarrow> Inl e
      | Inr (r, g1) \<Rightarrow>
          (case resolve_imports env g1 fpath imps of
             Inl e \<Rightarrow> Inl e
           | Inr (rs, g2) \<Rightarrow> Inr (r # rs, g2)))"

definition parse_file :: "pyenv \<Rightarrow> ModuleGraph \<Rightarrow> string \<Rightarrow> string \<Rightarrow> error + ModuleGraph" where
  \<comment> \<open>\<open>ModuleGraph.parse_file\<close>\<close>
  "parse_file env g fname fpath =
     (case find_module_name env fname fpath of
        Inl e \<Rightarrow> Inl e
      | Inr name \<Rightarrow>
          (case read_file env (os_path_join fpath fname) of
             None \<Rightarrow> Inl OSError
           | Some text \<Rightarrow>
               (case list_imports env fname fpath of
                  Inl e \<Rightarrow> Inl e
                | Inr import_infos \<Rightarrow>
                    (case resolve_imports env g fpath import_infos of
                       Inl e \<Rightarrow> Inl e
                     | Inr (rs, g1) \<Rightarrow>
                         Inr (g1\<lparr>modules :=
                                AList.update name
                                  \<lparr>mod_name = name, file_name = fname,
                                   is_package = (fname = ''__init__.py''), content = text,
                                   mod_imports = the ` (set rs - {None})\<rparr>
                                  (modules g1)\<rparr>)))))"

fun parse_files :: "pyenv \<Rightarrow> ModuleGraph \<Rightarrow> string \<Rightarrow> string list \<Rightarrow> error + ModuleGraph" where
  \<comment> \<open>\<open>for file in files\<close>\<close>
  "parse_files env g root [] = Inr g"
| "parse_files env g root (file # files) =
     (if endswith file ''.py'' \<and> file \<noteq> ''setup.py''
      then (case parse_file env g file root of
              Inl e \<Rightarrow> Inl e
            | Inr g1 \<Rightarrow> parse_files env g1 root files)
      else parse_files env g root files)"

fun parse_walk :: "pyenv \<Rightarrow> ModuleGraph \<Rightarrow> (string \<times> string list) list \<Rightarrow> error + ModuleGraph" where
  \<comment> \<open>\<open>for root, _, files in os.walk(path)\<close>\<close>
  "parse_walk env g [] = Inr g"
| "parse_walk env g ((root, files) # rest) =
     (case parse_files env (g\<lparr>paths := paths g @ [root]\<rparr>) root files of
        Inl e \<Rightarrow> Inl e
      | Inr g1 \<Rightarrow> parse_walk env g1 rest)"

fun parse_paths :: "pyenv \<Rightarrow> ModuleGraph \<Rightarrow> string list \<Rightarrow> error + ModuleGraph" where
  \<comment> \<open>\<open>ModuleGraph.parse_paths\<close>: a path that does not exist ends the whole call (\<open>return\<close>)\<close>
  "parse_paths env g [] = Inr g"
| "parse_paths env g (path # rest) =
     (if \<not> path_exists env path then Inr g
      else (case parse_walk env g (walk env path) of
              Inl e \<Rightarrow> Inl e
            | Inr g1 \<Rightarrow> parse_paths env g1 rest))"

section \<open>The ordering: \<open>toposort_flatten\<close>\<close>

text \<open>
  \<open>graph.py\<close> imports \<open>toposort_flatten\<close> from the \<open>toposort\<close> package.  Its three steps are
  modelled as the package performs them: self-dependencies are dropped and every item that occurs
  only as a dependency is added with no dependencies of its own; then, as long as some item has
  no dependency left, these items form the next batch and are removed from the others'
  dependencies; items that remain when no batch can be formed are a cycle.  \<open>toposort_flatten\<close>
  appends the batches, each one sorted.  The dictionary is an association list; the added items
  are appended in sorted order (Python appends them in the set's iteration order, which nothing
  below depends on).
\<close>

definition toposort_prepare :: "(string \<times> string set) list \<Rightarrow> (string \<times> string set) list" where
  "toposort_prepare data =
     (let data1 = map (\<lambda>(item, dep). (item, dep - {item})) data;
          extra_items_in_deps = \<Union> (set (map snd data1)) - set (map fst data1)
      in data1 @ map (\<lambda>item. (item, {})) (sorted_list_of_set extra_items_in_deps))"

definition no_deps :: "(string \<times> string set) list \<Rightarrow> string set" where
  \<comment> \<open>\<open>set(item for item, dep in data.items() if len(dep) == 0)\<close>\<close>
  "no_deps data = set (map fst (filter (\<lambda>(item, dep). dep = {}) data))"

definition remove_ordered :: "string set \<Rightarrow> (string \<times> string set) list \<Rightarrow> (string \<times> string set) list" where
  \<comment> \<open>\<open>{item: (dep - ordered) for item, dep in data.items() if item not in ordered}\<close>\<close>
  "remove_ordered ordered data =
     map (\<lambda>(item, dep). (item, dep - ordered)) (filter (\<lambda>(item, dep). item \<notin> ordered) data)"

lemma remove_ordered_shorter:
  "no_deps data \<noteq> {} \<Longrightarrow> length (remove_ordered (no_deps data) data) < length data"
proof -
  assume "no_deps data \<noteq> {}"
  then obtain item dep where mem: "(item, dep) \<in> set data" and "dep = {}"
    by (auto simp: no_deps_def)
  then have "item \<in> no_deps data"
    by (force simp: no_deps_def)
  then have "\<not> (\<lambda>(item, dep). item \<notin> no_deps data) (item, dep)"
    by simp
  with mem have "length (filter (\<lambda>(item, dep). item \<notin> no_deps data) data) < length data"
    by (rule length_filter_less)
  then show ?thesis
    by (simp add: remove_ordered_def)
qed

function toposort_loop :: "(string \<times> string set) list \<Rightarrow> error + string set list" where
  \<comment> \<open>the \<open>while True\<close> loop of \<open>toposort\<close> and the check after it; the result lists the batches
      it yields\<close>
  "toposort_loop data =
     (if no_deps data = {}
      then (if data = [] then Inr [] else Inl CircularDependencyError)
      else (case toposort_loop (remove_ordered (no_deps data) data) of
              Inl e \<Rightarrow> Inl e
            | Inr batches \<Rightarrow> Inr (no_deps data # batches)))"
  by pat_completeness auto
termination
  by (relation "measure length") (auto simp: remove_ordered_shorter)

definition toposort :: "(string \<times> string set) list \<Rightarrow> error + string set list" where
  "toposort data = (if data = [] then Inr [] else toposort_loop (toposort_prepare data))"

definition toposort_flatten :: "(string \<times> string set) list \<Rightarrow> error + string list" where
  "toposort_flatten data =
     (case toposort data of
        Inl e \<Rightarrow> Inl e
      | Inr batches \<Rightarrow> Inr (concat (map sorted_list_of_set batches)))"

section \<open>\<open>graph.py\<close>: pack generation\<close>

definition dependency_data :: "ModuleGraph \<Rightarrow> (string \<times> string set) list" where
  \<comment> \<open>\<open>for key in self._modules: data[key] = self._modules[key].imports\<close>\<close>
  "dependency_data g =
     map (\<lambda>key. (key, mod_imports (the (map_of (modules g) key)))) (map fst (modules g))"

definition build_dependency_data :: "ModuleGraph \<Rightarrow> error + string list" where
  \<comment> \<open>\<open>ModuleGraph._build_dependency_data\<close>\<close>
  "build_dependency_data g = toposort_flatten (dependency_data g)"

fun generate_data_loop :: "ModuleGraph \<Rightarrow> string list \<Rightarrow> error + module_dict list" where
  \<comment> \<open>\<open>for module in list_dependencies: data.append(self._modules[module].to_dict())\<close>\<close>
  "generate_data_loop g [] = Inr []"
| "generate_data_loop g (name # names) =
     (case map_of (modules g) name of
        None \<Rightarrow> Inl KeyError
      | Some m \<Rightarrow>
          (case generate_data_loop g names of
             Inl e \<Rightarrow> Inl e
           | Inr ds \<Rightarrow> Inr (to_dict m # ds)))"

definition generate_data :: "ModuleGraph \<Rightarrow> error + module_dict list" where
  \<comment> \<open>\<open>ModuleGraph.generate_data\<close>\<close>
  "generate_data g =
     (case build_dependency_data g of
        Inl e \<Rightarrow> Inl e
      | Inr list_dependencies \<Rightarrow> generate_data_loop g list_dependencies)"

section \<open>\<open>checks.py\<close>: the import-style classifier\<close>

definition names_module :: "string \<Rightarrow> string \<Rightarrow> bool" where
  \<comment> \<open>\<open>n == self._module or n.startswith(self._module + '.')\<close>\<close>
  "names_module m n = (n = m \<or> startswith n (m @ ''.''))"

fun check_visit :: "string \<Rightarrow> ast_node \<Rightarrow> bool \<Rightarrow> error + bool"
  and check_visit_children :: "string \<Rightarrow> ast_node list \<Rightarrow> bool \<Rightarrow> error + bool" where
  \<comment> \<open>\<open>_HasAbsoluteImportOfModuleCheck.visit\<close>; the Boolean is the visitor's
      \<open>has_absolute_import_of_module\<close> field\<close>
  "check_visit m (Import names) flag =
     Inr (fold (\<lambda>a f. if names_module m (alias_name a) then True else f) names flag)"
| "check_visit m (ImportFrom module names level) flag =
     (if level = 0
      then (case module of
              None \<Rightarrow> Inl AttributeError
            | Some n \<Rightarrow> if names_module m n then Inr True else Inr flag)
      else Inr flag)"
| "check_visit m (Node children) flag = check_visit_children m children flag"
| "check_visit_children m [] flag = Inr flag"
| "check_visit_children m (c # cs) flag =
     (case check_visit m c flag of
        Inl e \<Rightarrow> Inl e
      | Inr flag1 \<Rightarrow> check_visit_children m cs flag1)"

definition has_absolute_import_of_module :: "pyenv \<Rightarrow> string \<Rightarrow> string \<Rightarrow> error + bool" where
  "has_absolute_import_of_module env source m =
     (case ast_parse_type_comments env source of
        None \<Rightarrow> Inl SyntaxError
      | Some tree \<Rightarrow> check_visit m tree False)"

text \<open>The loops unfold on request only.\<close>

declare find_module_name_loop.simps [simp del]
declare find_module_of_import_loop.simps [simp del]
declare toposort_loop.simps [simp del]

section \<open>What the specification says, as predicates\<close>

subsection \<open>Import statements in a syntax tree\<close>

fun subnodes :: "ast_node \<Rightarrow> ast_node list" where
  \<comment> \<open>a node and everything below it\<close>
  "subnodes (Import names) = [Import names]"
| "subnodes (ImportFrom module names level) = [ImportFrom module names level]"
| "subnodes (Node children) = Node children # concat (map subnodes children)"

definition exact_or_dotted :: "string \<Rightarrow> string \<Rightarrow> bool" where
  \<comment> \<open>\<open>n\<close> is exactly \<open>m\<close>, or begins with \<open>m\<close> followed by a dot\<close>
  "exact_or_dotted m n =
     (n = m \<or> (length m < length n \<and> take (length m) n = m \<and> n ! length m = CHR ''.''))"

fun absolute_import_of :: "string \<Rightarrow> ast_node \<Rightarrow> bool" where
  \<comment> \<open>a plain import with such a name among its names, or a level-0 from-import of such a
      module\<close>
  "absolute_import_of m (Import names) = list_ex (\<lambda>a. exact_or_dotted m (alias_name a)) names"
| "absolute_import_of m (ImportFrom module names level) =
     (level = 0 \<and> (case module of None \<Rightarrow> False | Some n \<Rightarrow> exact_or_dotted m n))"
| "absolute_import_of m (Node children) = False"

fun from_import_named :: "ast_node \<Rightarrow> bool" where
  \<comment> \<open>what \<open>ast.parse\<close> guarantees: \<open>from import x\<close> is no Python, so a from-import without a
      module name is relative\<close>
  "from_import_named (ImportFrom module names level) = (module = None \<longrightarrow> level \<noteq> 0)"
| "from_import_named node = True"

subsection \<open>The names the resolver tries\<close>

function shortenings :: "string \<Rightarrow> string list" where
  \<comment> \<open>a dotted name, then the name with its last segment stripped, and so on down to one
      segment\<close>
  "shortenings name =
     (if name = [] then [] else name # shortenings (rpartition_head CHR ''.'' name))"
  by pat_completeness auto
termination
  by (relation "measure length") (auto simp: rpartition_head_shorter)

declare shortenings.simps [simp del]

definition cache_grows :: "string option \<Rightarrow> ModuleGraph \<Rightarrow> ModuleGraph \<Rightarrow> bool" where
  \<comment> \<open>from \<open>g\<close> to \<open>g'\<close> nothing but the cache changed, and it changed only by entries written for
      the extra directory \<open>e\<close>\<close>
  "cache_grows e g g' =
     (modules g' = modules g \<and> paths g' = paths g \<and>
      (\<forall>key. map_of (module_cache g') key \<noteq> map_of (module_cache g) key \<longrightarrow>
         snd key = e \<and> map_of (module_cache g') key \<noteq> None))"

subsection \<open>The registry and the output sequence\<close>

definition registry_ok :: "ModuleGraph \<Rightarrow> bool" where
  \<comment> \<open>the registry is a dictionary (no key twice) that holds each module under its own name, with
      a finite dependency set: what scanning builds\<close>
  "registry_ok g =
     (distinct (map fst (modules g)) \<and>
      list_all (\<lambda>(key, m). mod_name m = key \<and> finite (mod_imports m)) (modules g))"

definition record_position :: "module_dict list \<Rightarrow> string \<Rightarrow> nat" where
  \<comment> \<open>the index of the first record with that name; the length of the sequence when there is
      none\<close>
  "record_position out name = length (takeWhile (\<lambda>d. dict_name d \<noteq> name) out)"

definition deps_closed :: "(string \<times> string set) list \<Rightarrow> bool" where
  \<comment> \<open>every dependency is an item of the dictionary\<close>
  "deps_closed data = list_all (\<lambda>(item, dep). dep \<subseteq> fst ` set data) data"

definition flatten :: "string set list \<Rightarrow> string list" where
  \<comment> \<open>the batches in order, each one sorted\<close>
  "flatten batches = concat (map sorted_list_of_set batches)"

definition before :: "'a list \<Rightarrow> 'a \<Rightarrow> 'a \<Rightarrow> bool" where
  \<comment> \<open>\<open>a\<close> occurs in a front part of the list and \<open>b\<close> in the part behind it\<close>
  "before xs a b = (\<exists>us vs. xs = us @ vs \<and> a \<in> set us \<and> b \<in> set vs)"

subsection \<open>The lookup of one name, without the cache\<close>

fun lookup_paths :: "pyenv \<Rightarrow> string \<Rightarrow> string list \<Rightarrow> error + string option" where
  \<comment> \<open>the name derived from the file \<open>f\<close> in the first directory of the list that has it\<close>
  "lookup_paths env f [] = Inr None"
| "lookup_paths env f (path # rest) =
     (if \<not> path_isfile env path \<and> path_exists env (os_path_join path f)
      then map_sum id Some (find_module_name env f (os_path_dirname (os_path_join path f)))
      else lookup_paths env f rest)"

definition lookup_module ::
  "pyenv \<Rightarrow> string list \<Rightarrow> string \<Rightarrow> string option \<Rightarrow> error + string option" where
  \<comment> \<open>what \<open>_get_name_via_module\<close> returns for a name, an extra directory and a search path\<close>
  "lookup_module env ps n e =
     (let f = str_replace CHR ''.'' os_sep n @ ''.py'' in
      if truthy e \<and> path_exists env (os_path_join (the e) f)
      then map_sum id Some (find_module_name env f (os_path_dirname (os_path_join (the e) f)))
      else lookup_paths env f ps)"

definition store :: "ModuleGraph \<Rightarrow> string \<Rightarrow> string option \<Rightarrow> string option \<Rightarrow> ModuleGraph" where
  \<comment> \<open>the cache write that goes with a lookup that found a file\<close>
  "store g n e r =
     (case r of
        None \<Rightarrow> g
      | Some v \<Rightarrow> g\<lparr>module_cache := AList.update (n, e) v (module_cache g)\<rparr>)"

definition cache_coherent :: "pyenv \<Rightarrow> ModuleGraph \<Rightarrow> bool" where
  \<comment> \<open>every cached name is the one a lookup of its key finds now\<close>
  "cache_coherent env g =
     (\<forall>n e v. map_of (module_cache g) (n, e) = Some v \<longrightarrow>
        lookup_module env (paths g) n e = Inr (Some v))"


section \<open>A sample environment\<close>

text \<open>
  A small file system on which the theorems below are run:
  \<^verbatim>\<open>
  work/src/a.py            import a
  work/lib/b.py            import x
  work/proj/main.py        from pkg.sub import Symbol
  work/proj/pkg/sub.py     (empty)
  top/proj/.pylintrc
  top/proj/pkg/__init__.py (empty)
  top/proj/pkg/sub/__init__.py, top/proj/pkg/sub/mod.py (empty)
  opt/site/pkg/sub.py      (empty)
  \<close>
  No file or directory \<open>missing\<close> exists, \<open>x\<close> is no module anywhere, and \<open>sys.path\<close> holds
  \<open>work/proj\<close>.
\<close>

definition sample_parse :: "string \<Rightarrow> ast_node option" where
  \<comment> \<open>the parser, on the texts of the sample\<close>
  "sample_parse = map_of
     [(''import a'', Node [Import [Alias ''a'' None]]),
      (''import x'', Node [Import [Alias ''x'' None]]),
      (''from pkg.sub import Symbol'',
         Node [ImportFrom (Some ''pkg.sub'') [Alias ''Symbol'' None] 0]),
      (''import ab; from .a import b'',
         Node [Import [Alias ''ab'' None], ImportFrom (Some ''a'') [Alias ''b'' None] 1]),
      ('''', Node [])]"

definition sample_env :: pyenv where
  "sample_env =
     \<lparr>path_exists = (\<lambda>p. p \<in> set
        [''work'', ''work/src'', ''work/src/a.py'', ''work/lib'', ''work/lib/b.py'',
         ''work/proj'', ''work/proj/main.py'', ''work/proj/pkg'', ''work/proj/pkg/sub.py'',
         ''top'', ''top/proj'', ''top/proj/.pylintrc'', ''top/proj/pkg'',
         ''top/proj/pkg/__init__.py'', ''top/proj/pkg/sub'', ''top/proj/pkg/sub/__init__.py'',
         ''top/proj/pkg/sub/mod.py'', ''opt'', ''opt/site'', ''opt/site/pkg'',
         ''opt/site/pkg/sub.py'']),
      path_isfile = (\<lambda>p. p \<in> set
        [''work/src/a.py'', ''work/lib/b.py'', ''work/proj/main.py'', ''work/proj/pkg/sub.py'',
         ''top/proj/.pylintrc'', ''top/proj/pkg/__init__.py'', ''top/proj/pkg/sub/__init__.py'',
         ''top/proj/pkg/sub/mod.py'', ''opt/site/pkg/sub.py'']),
      listdir = map_of
        [(''work'', [''src'', ''lib'', ''proj'']),
         (''work/src'', [''a.py'']),
         (''work/lib'', [''b.py'']),
         (''work/proj'', [''main.py'', ''pkg'']),
         (''work/proj/pkg'', [''sub.py'']),
         (''top'', [''proj'']),
         (''top/proj'', [''.pylintrc'', ''pkg'']),
         (''top/proj/pkg'', [''__init__.py'', ''sub'']),
         (''top/proj/pkg/sub'', [''__init__.py'', ''mod.py'']),
         (''opt'', [''site'']),
         (''opt/site'', [''pkg'']),
         (''opt/site/pkg'', [''sub.py''])],
      walk = (\<lambda>p. case map_of
        [(''work/src'', [(''work/src'', [''a.py''])]),
         (''work/lib'', [(''work/lib'', [''b.py''])]),
         (''work/proj'', [(''work/proj'', [''main.py'']), (''work/proj/pkg'', [''sub.py''])]),
         (''top/proj'',
            [(''top/proj'', [''.pylintrc'']), (''top/proj/pkg'', [''__init__.py'']),
             (''top/proj/pkg/sub'', [''__init__.py'', ''mod.py''])])] p
        of Some w \<Rightarrow> w | None \<Rightarrow> []),
      read_file = map_of
        [(''work/src/a.py'', ''import a''),
         (''work/lib/b.py'', ''import x''),
         (''work/proj/main.py'', ''from pkg.sub import Symbol''),
         (''work/proj/pkg/sub.py'', ''''),
         (''top/proj/pkg/__init__.py'', ''''),
         (''top/proj/pkg/sub/__init__.py'', ''''),
         (''top/proj/pkg/sub/mod.py'', ''''),
         (''opt/site/pkg/sub.py'', '''')],
      ast_parse = sample_parse,
      ast_parse_type_comments = sample_parse,
      sys_modules = {''sys'', ''os''},
      builtin_module_names = {''sys''},
      sys_path = [''/usr/lib/python3'', ''work/proj'']\<rparr>"

text \<open>The graphs that scanning the roots \<open>work/src\<close>, \<open>work/lib\<close> and \<open>work/proj\<close> builds.\<close>

definition scanned_src :: ModuleGraph where
  "scanned_src =
     \<lparr>modules =
        [(''src.a'', \<lparr>mod_name = ''src.a'', file_name = ''a.py'', is_package = False,
                      content = ''import a'', mod_imports = {''src.a''}\<rparr>)],
      module_cache = [((''a'', None), ''src.a'')],
      paths = [''/usr/lib/python3'', ''work/proj'', ''work/src'']\<rparr>"

definition scanned_lib :: ModuleGraph where
  "scanned_lib =
     \<lparr>modules =
        [(''lib.b'', \<lparr>mod_name = ''lib.b'', file_name = ''b.py'', is_package = False,
                      content = ''import x'', mod_imports = {''x''}\<rparr>)],
      module_cache = [],
      paths = [''/usr/lib/python3'', ''work/proj'', ''work/lib'']\<rparr>"

definition scanned_proj :: ModuleGraph where
  "scanned_proj =
     \<lparr>modules =
        [(''proj.main'', \<lparr>mod_name = ''proj.main'', file_name = ''main.py'', is_package = False,
                          content = ''from pkg.sub import Symbol'',
                          mod_imports = {''proj.pkg.sub''}\<rparr>),
         (''proj.pkg.sub'', \<lparr>mod_name = ''proj.pkg.sub'', file_name = ''sub.py'',
                             is_package = False, content = [], mod_imports = {}\<rparr>)],
      module_cache = [((''pkg.sub'', None), ''proj.pkg.sub'')],
      paths = [''/usr/lib/python3'', ''work/proj'', ''work/proj'', ''work/proj/pkg'']\<rparr>"

section \<open>The import-style classifier\<close>

lemma names_module_exact_or_dotted: "names_module m n = exact_or_dotted m n"
proof -
  have "startswith n (m @ ''.'') =
          (length m < length n \<and> take (length m) n = m \<and> n ! length m = CHR ''.'')"
  proof (cases "length m < length n")
    case True
    then have "take (Suc (length m)) n = take (length m) n @ [n ! length m]"
      by (simp add: take_Suc_conv_app_nth)
    then show ?thesis
      using True by (auto simp: startswith_def)
  next
    case False
    then have "length (take (length (m @ ''.'')) n) < length (m @ ''.'')"
      by simp
    then have "take (length (m @ ''.'')) n \<noteq> m @ ''.''"
      by (metis less_irrefl)
    then show ?thesis
      using False by (simp add: startswith_def)
  qed
  then show ?thesis
    by (simp add: names_module_def exact_or_dotted_def)
qed

lemma fold_flag: "fold (\<lambda>a f. if P a then True else f) names flag = (flag \<or> list_ex P names)"
  by (induction names arbitrary: flag) auto

lemma check_visit_flag:
  "list_all from_import_named (subnodes node) \<Longrightarrow>
     check_visit m node flag = Inr (flag \<or> list_ex (absolute_import_of m) (subnodes node))"
  "list_all from_import_named (concat (map subnodes children)) \<Longrightarrow>
     check_visit_children m children flag =
       Inr (flag \<or> list_ex (absolute_import_of m) (concat (map subnodes children)))"
proof (induction m node flag and m children flag rule: check_visit_check_visit_children.induct)
  case (1 m names flag)
  then show ?case
    by (simp add: fold_flag names_module_exact_or_dotted)
next
  case (2 m module names level flag)
  then show ?case
    by (auto simp: names_module_exact_or_dotted split: option.splits)
next
  case (3 m children flag)
  then show ?case
    by simp
next
  case (4 m flag)
  then show ?case
    by simp
next
  case (5 m c cs flag)
  then show ?case
    by auto
qed

text \<open>
  C10.  For a source text that parses, \<open>has_absolute_import_of_module(source, M)\<close> is true exactly
  when the tree holds a plain import one of whose names is \<open>M\<close> or begins with \<open>M.\<close>, or a
  level-0 from-import whose module is \<open>M\<close> or begins with \<open>M.\<close>.  A name that continues \<open>M\<close> with
  anything but a dot does not trigger it, and a relative from-import never does.
\<close>

theorem has_absolute_import_of_module_iff:
  assumes "ast_parse_type_comments env source = Some tree"
    and "list_all from_import_named (subnodes tree)"
  shows "has_absolute_import_of_module env source m =
           Inr (list_ex (absolute_import_of m) (subnodes tree))
         \<and> (\<forall>c rest. c \<noteq> CHR ''.'' \<longrightarrow> \<not> absolute_import_of m (Import [Alias (m @ c # rest) None]))
         \<and> (\<forall>module names level. level \<noteq> 0 \<longrightarrow>
               \<not> absolute_import_of m (ImportFrom module names level))"
proof (intro conjI allI impI)
  have "has_absolute_import_of_module env source m = check_visit m tree False"
    using assms(1) by (simp add: has_absolute_import_of_module_def)
  also have "\<dots> = Inr (False \<or> list_ex (absolute_import_of m) (subnodes tree))"
    using assms(2) by (rule check_visit_flag(1))
  finally show "has_absolute_import_of_module env source m =
      Inr (list_ex (absolute_import_of m) (subnodes tree))"
    by simp
next
  fix c rest
  assume "c \<noteq> CHR ''.''"
  then show "\<not> absolute_import_of m (Import [Alias (m @ c # rest) None])"
    by (simp add: exact_or_dotted_def)
next
  fix module names level
  assume "level \<noteq> (0::nat)"
  then show "\<not> absolute_import_of m (ImportFrom module names level)"
    by simp
qed

theorem has_absolute_import_of_module_witness:
  "has_absolute_import_of_module sample_env ''import a'' ''a'' = Inr True
   \<and> has_absolute_import_of_module sample_env ''import ab; from .a import b'' ''a'' = Inr False"
proof -
  have p1: "ast_parse_type_comments sample_env ''import a'' = Some (Node [Import [Alias ''a'' None]])"
    by (simp add: sample_env_def sample_parse_def)
  have p2: "ast_parse_type_comments sample_env ''import ab; from .a import b'' =
      Some (Node [Import [Alias ''ab'' None], ImportFrom (Some ''a'') [Alias ''b'' None] 1])"
    by (simp add: sample_env_def sample_parse_def)
  have w1: "list_all from_import_named (subnodes (Node [Import [Alias ''a'' None]]))"
    by simp
  have w2: "list_all from_import_named
      (subnodes (Node [Import [Alias ''ab'' None], ImportFrom (Some ''a'') [Alias ''b'' None] 1]))"
    by simp
  from has_absolute_import_of_module_iff [OF p1 w1, of "''a''"]
    has_absolute_import_of_module_iff [OF p2 w2, of "''a''"]
  show ?thesis
    by (simp add: exact_or_dotted_def)
qed

section \<open>Name derivation\<close>

subsection \<open>Splitting and joining paths\<close>

lemma split_sep_nonempty: "split_sep c s \<noteq> []"
  by (induction s) auto

lemma split_sep_append: "split_sep c (a @ c # b) = split_sep c a @ split_sep c b"
proof (induction a)
  case Nil
  then show ?case by simp
next
  case (Cons x a)
  then show ?case
    using split_sep_nonempty [of c a] by (cases "split_sep c a") auto
qed

lemma split_sep_plain: "c \<notin> set s \<Longrightarrow> split_sep c s = [s]"
  by (induction s) auto

lemma join_sep_snoc: "xs \<noteq> [] \<Longrightarrow> join_sep sep (xs @ [y]) = join_sep sep xs @ sep @ y"
  by (induction sep xs rule: join_sep.induct) auto

lemma join_split: "join_sep [c] (split_sep c s) = s"
proof (induction s)
  case Nil
  then show ?case by simp
next
  case (Cons x s)
  show ?case
  proof (cases "split_sep c s")
    case Nil
    then show ?thesis using split_sep_nonempty [of c s] by simp
  next
    case (Cons w ws)
    with Cons.IH show ?thesis
      by (cases ws) auto
  qed
qed

lemma last_split_sep: "c \<notin> set b \<Longrightarrow> last (split_sep c (a @ c # b)) = b"
  by (simp add: split_sep_append split_sep_plain)

lemma str_replace_plain: "c \<notin> set s \<Longrightarrow> str_replace c r s = s"
  by (induction s) (auto simp: str_replace_def)

lemma str_replace_append: "str_replace c r (a @ b) = str_replace c r a @ str_replace c r b"
  by (simp add: str_replace_def)

lemma str_replace_dotted:
  "CHR ''.'' \<notin> set a \<Longrightarrow>
     str_replace CHR ''.'' os_sep (a @ CHR ''.'' # b) = a @ CHR ''/'' # str_replace CHR ''.'' os_sep b"
proof -
  assume "CHR ''.'' \<notin> set a"
  then have "str_replace CHR ''.'' os_sep a = a"
    by (rule str_replace_plain)
  moreover have "str_replace CHR ''.'' os_sep (CHR ''.'' # b) = CHR ''/'' # str_replace CHR ''.'' os_sep b"
    by (simp add: str_replace_def os_sep_def)
  ultimately show ?thesis
    by (simp add: str_replace_append)
qed

lemma rpartition_head_append: "c \<notin> set b \<Longrightarrow> rpartition_head c (a @ c # b) = a"
proof -
  assume "c \<notin> set b"
  then have "dropWhile (\<lambda>x. x \<noteq> c) (rev b @ c # rev a) = c # rev a"
    by (auto simp: dropWhile_append3)
  then show ?thesis
    by (simp add: rpartition_head_def)
qed

lemma split_first_found: "q \<notin> set a \<Longrightarrow> split_first (q # qs) (a @ q # qs @ rest) = a"
  by (induction a) (auto simp: startswith_def)

lemma str_contains_here: "str_contains p (p @ b)"
proof (cases "p @ b")
  case Nil
  then show ?thesis by simp
next
  case (Cons x xs)
  have "startswith (p @ b) p"
    by (simp add: startswith_def)
  then show ?thesis
    unfolding Cons by simp
qed

lemma str_contains_append: "str_contains p b \<Longrightarrow> str_contains p (a @ b)"
  by (induction a) auto

lemma str_contains_char: "c \<notin> set s \<Longrightarrow> \<not> str_contains [c] s"
  by (induction s) (auto simp: startswith_def)

lemma os_path_join_plain:
  "a \<noteq> [] \<Longrightarrow> last a \<noteq> CHR ''/'' \<Longrightarrow> b \<noteq> [] \<Longrightarrow> hd b \<noteq> CHR ''/'' \<Longrightarrow>
     os_path_join a b = a @ ''/'' @ b"
proof -
  assume a: "a \<noteq> []" "last a \<noteq> CHR ''/''" and b: "b \<noteq> []" "hd b \<noteq> CHR ''/''"
  have "\<not> startswith b os_sep"
    using b by (cases b) (auto simp: startswith_def os_sep_def)
  moreover have "\<not> endswith a os_sep"
  proof
    assume "endswith a os_sep"
    then have "drop (length a - 1) a = ''/''"
      by (simp add: endswith_def os_sep_def)
    with a show False
      by (metis last_drop last.simps length_greater_0_conv diff_less zero_less_one)
  qed
  ultimately show ?thesis
    using a by (simp add: os_path_join_def os_sep_def)
qed

lemma os_path_dirname_file:
  assumes "CHR ''/'' \<notin> set base" and "d \<noteq> []" and "last d \<noteq> CHR ''/''"
  shows "os_path_dirname (d @ ''/'' @ base) = d"
proof -
  have dw: "dropWhile (\<lambda>x. x \<noteq> CHR ''/'') (rev base @ CHR ''/'' # rev d) = CHR ''/'' # rev d"
    using assms(1) by (auto simp: dropWhile_append3)
  have ne: "d @ ''/'' \<noteq> replicate (length (d @ ''/'')) CHR ''/''"
  proof
    assume "d @ ''/'' = replicate (length (d @ ''/'')) CHR ''/''"
    then have "set (d @ ''/'') = set (replicate (length (d @ ''/'')) CHR ''/'')"
      by (rule arg_cong)
    moreover have "last d \<in> set (d @ ''/'')"
      using assms(2) by simp
    ultimately have "last d \<in> set (replicate (length (d @ ''/'')) CHR ''/'')"
      by blast
    with assms(3) show False
      by simp
  qed
  have st: "dropWhile (\<lambda>x. x = CHR ''/'') (rev d) = rev d"
    using assms(2,3) by (cases "rev d") (auto simp: last_rev [symmetric] hd_rev)
  show ?thesis
    using dw ne st by (simp add: os_path_dirname_def Let_def)
qed

subsection \<open>The walk towards the root\<close>

lemma find_module_name_loop_stop:
  "elements \<noteq> [] \<Longrightarrow> listdir env (join_sep os_sep (butlast elements)) = Some files \<Longrightarrow>
   \<not> contain_python files \<Longrightarrow>
     find_module_name_loop env elements acc = Inr (acc @ [last elements])"
  by (subst find_module_name_loop.simps) simp

lemma find_module_name_loop_up:
  "elements \<noteq> [] \<Longrightarrow> listdir env (join_sep os_sep (butlast elements)) = Some files \<Longrightarrow>
   contain_python files \<Longrightarrow>
     find_module_name_loop env elements acc =
       find_module_name_loop env (butlast elements) (acc @ [last elements])"
  by (subst find_module_name_loop.simps) simp

lemma walk_two_up:
  assumes "CHR ''/'' \<notin> set pkg" and "CHR ''/'' \<notin> set sub"
    and "listdir env (base @ ''/'' @ pkg) = Some inner" and "contain_python inner"
    and "listdir env base = Some outer" and "\<not> contain_python outer"
  shows "find_module_name_loop env (split_sep CHR ''/'' (base @ ''/'' @ pkg @ ''/'' @ sub)) []
       = Inr [sub, pkg]"
proof -
  let ?E = "split_sep CHR ''/'' base"
  have "split_sep CHR ''/'' (base @ CHR ''/'' # (pkg @ CHR ''/'' # sub))
      = ?E @ split_sep CHR ''/'' pkg @ split_sep CHR ''/'' sub"
    by (simp only: split_sep_append)
  then have sp: "split_sep CHR ''/'' (base @ ''/'' @ pkg @ ''/'' @ sub) = ?E @ [pkg, sub]"
    using assms(1,2) by (simp add: split_sep_plain)
  have j1: "join_sep os_sep (?E @ [pkg]) = base @ ''/'' @ pkg"
    using join_sep_snoc [of ?E os_sep pkg] split_sep_nonempty [of "CHR ''/''" base]
      join_split [of "CHR ''/''" base]
    by (simp add: os_sep_def)
  have j0: "join_sep os_sep ?E = base"
    using join_split [of "CHR ''/''" base] by (simp add: os_sep_def)
  have "find_module_name_loop env (?E @ [pkg, sub]) [] =
      find_module_name_loop env (?E @ [pkg]) [sub]"
    using find_module_name_loop_up [of "?E @ [pkg, sub]" env inner "[]"] assms(3,4) j1
    by (simp add: butlast_append)
  also have "\<dots> = Inr [sub, pkg]"
    using find_module_name_loop_stop [of "?E @ [pkg]" env outer "[sub]"] assms(5,6) j0
    by (simp add: butlast_append)
  finally show ?thesis
    unfolding sp .
qed

text \<open>
  What the derivation does with a module file and the marker file of \<open>pkg/sub\<close>, when the test
  the code applies to a directory listing (\<^const>\<open>contain_python\<close>: some entry other than
  \<open>setup.py\<close> has \<open>.py\<close> somewhere in its name) holds of \<open>pkg\<close> and fails of the directory \<open>base\<close>
  above it.
\<close>

lemma find_module_name_outermost:
  assumes "CHR ''/'' \<notin> set pkg" and "CHR ''/'' \<notin> set sub"
    and "listdir env (base @ ''/'' @ pkg) = Some inner" and "contain_python inner"
    and "listdir env base = Some outer" and "\<not> contain_python outer"
  shows "find_module_name env ''__init__.py'' (base @ ''/'' @ pkg @ ''/'' @ sub)
           = Inr (pkg @ ''.'' @ sub)"
    and "CHR ''.'' \<notin> set m \<Longrightarrow> CHR ''/'' \<notin> set m \<Longrightarrow> \<not> str_contains ''__init__.py'' (m @ ''.py'') \<Longrightarrow>
         find_module_name env (m @ ''.py'') (base @ ''/'' @ pkg @ ''/'' @ sub)
           = Inr (pkg @ ''.'' @ sub @ ''.'' @ m)"
proof -
  note w = walk_two_up [OF assms]
  show "find_module_name env ''__init__.py'' (base @ ''/'' @ pkg @ ''/'' @ sub)
           = Inr (pkg @ ''.'' @ sub)"
    using w by (simp add: find_module_name_def startswith_def)
  assume m: "CHR ''.'' \<notin> set m" "CHR ''/'' \<notin> set m" "\<not> str_contains ''__init__.py'' (m @ ''.py'')"
  have "split_first ''.py'' (m @ ''.py'') = m"
    using split_first_found [of "CHR ''.''" m "''py''" "[]"] m(1) by simp
  moreover have "\<not> str_contains os_sep m"
    using m(2) by (simp add: os_sep_def str_contains_char)
  ultimately show "find_module_name env (m @ ''.py'') (base @ ''/'' @ pkg @ ''/'' @ sub)
           = Inr (pkg @ ''.'' @ sub @ ''.'' @ m)"
    using w m(3) by (simp add: find_module_name_def)
qed

text \<open>
  C7.  The claim makes \<open>pkg\<close> the outermost package when \<open>pkg\<close> holds a source file and its
  parent directory holds none; the scanner takes as source files the names that end in \<open>.py\<close>
  (\<open>setup.py\<close> apart).  Name derivation tests a listing for \<open>'.py' in file\<close> instead, which is also
  true of entries that are no source files.  In the sample environment \<open>top/proj\<close> holds
  \<open>.pylintrc\<close> and the directory \<open>pkg\<close>, no source file; still the walk goes on above \<open>pkg\<close>, and
  \<open>pkg/sub/mod.py\<close> is named \<open>proj.pkg.sub.mod\<close>, the marker file \<open>proj.pkg.sub\<close>.
\<close>

theorem find_module_name_counts_non_source_entry:
  "listdir sample_env ''top/proj/pkg'' = Some [''__init__.py'', ''sub'']
   \<and> listdir sample_env ''top/proj'' = Some [''.pylintrc'', ''pkg'']
   \<and> \<not> list_ex (\<lambda>file. endswith file ''.py'' \<and> file \<noteq> ''setup.py'') [''.pylintrc'', ''pkg'']
   \<and> contain_python [''.pylintrc'', ''pkg'']
   \<and> find_module_name sample_env ''mod.py'' ''top/proj/pkg/sub'' = Inr ''proj.pkg.sub.mod''
   \<and> find_module_name sample_env ''__init__.py'' ''top/proj/pkg/sub'' = Inr ''proj.pkg.sub''"
  by code_simp

section \<open>Scanning\<close>

lemma parse_paths_missing:
  "\<not> path_exists env path \<Longrightarrow> parse_paths env g (path # rest) = Inr g"
  by simp

text \<open>
  C2.  The specification has a root path that does not exist skipped, the remaining roots still
  scanned.  \<open>parse_paths\<close> leaves the whole loop at such a path (\<open>return\<close>, where skipping is
  \<open>continue\<close>): in the sample environment the root \<open>work/src\<close> registers its module \<open>src.a\<close> when
  it is given alone, and nothing is registered when the missing root precedes it.
\<close>

theorem parse_paths_stops_at_missing_root:
  "\<not> path_exists sample_env ''missing''
   \<and> path_exists sample_env ''work/src''
   \<and> map_sum id (\<lambda>g. map fst (modules g))
        (parse_paths sample_env (init_graph sample_env) [''work/src'']) = Inr [''src.a'']
   \<and> parse_paths sample_env (init_graph sample_env) [''missing'', ''work/src'']
        = Inr (init_graph sample_env)"
  by code_simp

section \<open>The resolver\<close>

text \<open>
  C3, as the claim states it: a name ending in \<open>.*\<close> is resolved like its remainder.  It is not:
  with \<open>work/proj\<close> on the search path, \<open>from pkg.sub import *\<close> in \<open>work/proj/main.py\<close> yields
  \<open>pkg.sub\<close>, while the remainder \<open>pkg.sub\<close> resolves to the file \<open>work/proj/pkg/sub.py\<close> and its
  canonical name \<open>proj.pkg.sub\<close>.
\<close>

theorem wildcard_resolved_like_remainder_counterexample:
  "map_sum id fst (find_module_of_import sample_env (init_graph sample_env)
      ''pkg.sub.*'' (Some 0) ''work/proj'') = Inr (Some ''pkg.sub'')
   \<and> map_sum id fst (find_module_of_import sample_env (init_graph sample_env)
      ''pkg.sub'' (Some 0) ''work/proj'') = Inr (Some ''proj.pkg.sub'')"
  by code_simp

text \<open>
  C3, amended.  For a name ending in \<open>.*\<close> that is neither loaded nor built in, the resolver
  returns the name without the suffix as it stands, whatever the level, the origin directory and
  the file system; it looks nothing up and leaves the graph, cache included, as it was.
\<close>

theorem wildcard_returned_as_is:
  assumes "stem @ ''.*'' \<notin> sys_modules env" and "stem @ ''.*'' \<notin> builtin_module_names env"
  shows "find_module_of_import env g (stem @ ''.*'') imp_level fpath = Inr (Some stem, g)"
  using assms by (simp add: find_module_of_import_def endswith_def)

theorem wildcard_returned_as_is_witness:
  "find_module_of_import sample_env (init_graph sample_env) ''pkg.sub.*'' (Some 0) ''work/proj''
     = Inr (Some ''pkg.sub'', init_graph sample_env)"
proof -
  have a: "''pkg.sub'' @ ''.*'' \<notin> sys_modules sample_env"
    by (simp add: sample_env_def)
  have b: "''pkg.sub'' @ ''.*'' \<notin> builtin_module_names sample_env"
    by (simp add: sample_env_def)
  from wildcard_returned_as_is [OF a b, of "init_graph sample_env" "Some 0" "''work/proj''"]
  show ?thesis
    by simp
qed

subsection \<open>What a lookup does to the graph\<close>

lemma cache_grows_refl: "cache_grows e g g"
  by (simp add: cache_grows_def)

lemma cache_grows_trans:
  "cache_grows e g g1 \<Longrightarrow> cache_grows e g1 g2 \<Longrightarrow> cache_grows e g g2"
  unfolding cache_grows_def by metis

lemma cache_result_grows:
  "cache_result env g n e f full = Inr (r, g') \<Longrightarrow> cache_grows e g g'"
  by (auto simp: cache_result_def cache_grows_def update_conv' split: sum.splits if_splits)

lemma get_name_via_module_loop_grows:
  "get_name_via_module_loop env g n e f ps = Inr (r, g') \<Longrightarrow> cache_grows e g g'"
  by (induction ps) (auto simp: cache_grows_refl cache_result_grows split: if_splits)

lemma get_name_via_module_grows:
  "get_name_via_module env g n e = Inr (r, g') \<Longrightarrow> cache_grows e g g'"
  by (auto simp: get_name_via_module_def Let_def get_name_via_module_loop_grows cache_result_grows
      split: if_splits)

lemma get_name_via_package_grows:
  "get_name_via_package env g n e = Inr (r, g') \<Longrightarrow> cache_grows e g g'"
  unfolding get_name_via_package_def by (rule get_name_via_module_grows)

text \<open>One round of the \<open>while\<close> loop, case by case.\<close>

lemma loop_empty: "find_module_of_import_loop env g imp_name e [] = Inr (Some imp_name, g)"
  by (simp add: find_module_of_import_loop.simps)

lemma loop_module_error:
  "name \<noteq> [] \<Longrightarrow> get_name_via_module env g name e = Inl err \<Longrightarrow>
     find_module_of_import_loop env g imp_name e name = Inl err"
  by (subst find_module_of_import_loop.simps) simp

lemma loop_module_hit:
  "name \<noteq> [] \<Longrightarrow> get_name_via_module env g name e = Inr (r1, g1) \<Longrightarrow> truthy r1 \<Longrightarrow>
     find_module_of_import_loop env g imp_name e name = Inr (r1, g1)"
  by (subst find_module_of_import_loop.simps) simp

lemma loop_package_error:
  "name \<noteq> [] \<Longrightarrow> get_name_via_module env g name e = Inr (r1, g1) \<Longrightarrow> \<not> truthy r1 \<Longrightarrow>
   get_name_via_package env g1 name e = Inl err \<Longrightarrow>
     find_module_of_import_loop env g imp_name e name = Inl err"
  by (subst find_module_of_import_loop.simps) simp

lemma loop_package_hit:
  "name \<noteq> [] \<Longrightarrow> get_name_via_module env g name e = Inr (r1, g1) \<Longrightarrow> \<not> truthy r1 \<Longrightarrow>
   get_name_via_package env g1 name e = Inr (r2, g2) \<Longrightarrow> truthy r2 \<Longrightarrow>
     find_module_of_import_loop env g imp_name e name = Inr (r2, g2)"
  by (subst find_module_of_import_loop.simps) simp

lemma loop_shorten:
  "name \<noteq> [] \<Longrightarrow> get_name_via_module env g name e = Inr (r1, g1) \<Longrightarrow> \<not> truthy r1 \<Longrightarrow>
   get_name_via_package env g1 name e = Inr (r2, g2) \<Longrightarrow> \<not> truthy r2 \<Longrightarrow>
     find_module_of_import_loop env g imp_name e name =
       find_module_of_import_loop env g2 imp_name e (rpartition_head CHR ''.'' name)"
  by (subst find_module_of_import_loop.simps) simp

lemma find_module_of_import_loop_grows:
  "find_module_of_import_loop env g imp_name e name = Inr (r, g') \<Longrightarrow> cache_grows e g g'"
proof (induction env g imp_name e name rule: find_module_of_import_loop.induct)
  case (1 env g imp_name e name)
  show ?case
  proof (cases "name = []")
    case True
    with "1.prems" show ?thesis
      by (simp add: loop_empty cache_grows_refl)
  next
    case ne: False
    show ?thesis
    proof (cases "get_name_via_module env g name e")
      case (Inl err)
      with ne "1.prems" show ?thesis
        by (simp add: loop_module_error)
    next
      case (Inr p1)
      obtain r1 g1 where m: "get_name_via_module env g name e = Inr (r1, g1)"
        using Inr by (cases p1) simp
      have s1: "cache_grows e g g1"
        using m by (rule get_name_via_module_grows)
      show ?thesis
      proof (cases "truthy r1")
        case True
        with ne m "1.prems" s1 show ?thesis
          by (simp add: loop_module_hit)
      next
        case nt1: False
        show ?thesis
        proof (cases "get_name_via_package env g1 name e")
          case (Inl err)
          with ne m nt1 "1.prems" show ?thesis
            by (simp add: loop_package_error)
        next
          case (Inr p2)
          obtain r2 g2 where p: "get_name_via_package env g1 name e = Inr (r2, g2)"
            using Inr by (cases p2) simp
          have s2: "cache_grows e g1 g2"
            using p by (rule get_name_via_package_grows)
          show ?thesis
          proof (cases "truthy r2")
            case True
            with ne m nt1 p "1.prems" have "g' = g2"
              by (simp add: loop_package_hit)
            with s1 s2 show ?thesis
              using cache_grows_trans by blast
          next
            case nt2: False
            with ne m nt1 p "1.prems" have
              "find_module_of_import_loop env g2 imp_name e (rpartition_head CHR ''.'' name) = Inr (r, g')"
              by (simp add: loop_shorten)
            then have "cache_grows e g2 g'"
              by (rule "1.IH" [OF ne m refl nt1 p refl nt2])
            with s1 s2 show ?thesis
              using cache_grows_trans by blast
          qed
        qed
      qed
    qed
  qed
qed

lemma find_module_of_import_loop_exhausted:
  "(\<And>n. n \<in> set (shortenings name) \<Longrightarrow>
      get_name_via_module env g n e = Inr (None, g) \<and> get_name_via_package env g n e = Inr (None, g))
   \<Longrightarrow> find_module_of_import_loop env g imp_name e name = Inr (Some imp_name, g)"
proof (induction name rule: shortenings.induct)
  case (1 name)
  show ?case
  proof (cases "name = []")
    case True
    then show ?thesis by (simp add: loop_empty)
  next
    case ne: False
    then have mem: "name \<in> set (shortenings name)"
      by (subst shortenings.simps) simp
    have sub: "set (shortenings (rpartition_head CHR ''.'' name)) \<subseteq> set (shortenings name)"
      using ne by (subst (2) shortenings.simps) auto
    from "1.prems" [OF mem] have
      m: "get_name_via_module env g name e = Inr (None, g)" and
      p: "get_name_via_package env g name e = Inr (None, g)"
      by simp_all
    have "find_module_of_import_loop env g imp_name e name =
        find_module_of_import_loop env g imp_name e (rpartition_head CHR ''.'' name)"
      using ne m p by (intro loop_shorten [where ?r1.0 = None and ?r2.0 = None]) (simp_all add: truthy_def)
    also have "\<dots> = Inr (Some imp_name, g)"
      using "1.IH" [OF ne] "1.prems" sub by blast
    finally show ?thesis .
  qed
qed


lemma find_module_of_import_grows:
  assumes "find_module_of_import env g imp_name imp_level fpath = Inr (r, g')"
  shows "cache_grows (extra_path imp_level fpath) g g'"
proof (cases "imp_name \<in> sys_modules env \<or> imp_name \<in> builtin_module_names env
    \<or> endswith imp_name ''.*''")
  case True
  with assms have "g' = g"
    by (auto simp: find_module_of_import_def split: if_splits)
  then show ?thesis
    by (simp add: cache_grows_refl)
next
  case False
  show ?thesis
  proof (cases "map_of (module_cache g) (imp_name, extra_path imp_level fpath)")
    case None
    with assms False have
      "find_module_of_import_loop env g imp_name (extra_path imp_level fpath) imp_name = Inr (r, g')"
      by (simp add: find_module_of_import_def Let_def)
    then show ?thesis
      by (rule find_module_of_import_loop_grows)
  next
    case (Some cached)
    with assms False have "g' = g"
      by (simp add: find_module_of_import_def Let_def)
    then show ?thesis
      by (simp add: cache_grows_refl)
  qed
qed

lemma resolve_imports_frame:
  "resolve_imports env g fpath infos = Inr (rs, g1) \<Longrightarrow>
     modules g1 = modules g \<and> paths g1 = paths g"
proof (induction infos arbitrary: g rs)
  case Nil
  then show ?case by simp
next
  case (Cons imp imps)
  from Cons.prems obtain r ga rs' where
    f: "find_module_of_import env g (info_name imp) (info_level imp) fpath = Inr (r, ga)" and
    rest: "resolve_imports env ga fpath imps = Inr (rs', g1)"
    by (auto split: sum.splits prod.splits)
  from find_module_of_import_grows [OF f] have "modules ga = modules g \<and> paths ga = paths g"
    by (simp add: cache_grows_def)
  with Cons.IH [OF rest] show ?case
    by simp
qed

lemma cache_result_stored:
  "cache_result env g n e f full = Inr (Some v, g1) \<Longrightarrow> map_of (module_cache g1) (n, e) = Some v"
  by (auto simp: cache_result_def update_conv' split: sum.splits)

lemma get_name_via_module_loop_stored:
  "get_name_via_module_loop env g n e f ps = Inr (Some v, g1) \<Longrightarrow>
     map_of (module_cache g1) (n, e) = Some v"
  by (induction ps) (auto simp: cache_result_stored split: if_splits)

lemma get_name_via_module_stored:
  "get_name_via_module env g n e = Inr (Some v, g1) \<Longrightarrow> map_of (module_cache g1) (n, e) = Some v"
  by (auto simp: get_name_via_module_def Let_def get_name_via_module_loop_stored cache_result_stored
      split: if_splits)

text \<open>
  C4, as the claim states it: every lookup, successful or exhausted, leaves an entry for its key
  \<open>(name, extraDirectory)\<close>.  Neither does.  \<open>import x\<close> finds no file, falls back to \<open>x\<close> and
  leaves the cache empty; \<open>from pkg.sub import Symbol\<close> succeeds after one shortening and leaves
  its entry under the shortened name \<open>pkg.sub\<close>, none under \<open>pkg.sub.Symbol\<close>.
\<close>

theorem lookup_leaves_cache_entry_counterexample:
  "''x'' \<notin> sys_modules sample_env \<union> builtin_module_names sample_env
   \<and> \<not> endswith ''x'' ''.*''
   \<and> find_module_of_import sample_env (init_graph sample_env) ''x'' None ''work/lib''
        = Inr (Some ''x'', init_graph sample_env)
   \<and> map_of (module_cache (init_graph sample_env)) (''x'', extra_path None ''work/lib'') = None
   \<and> ''pkg.sub.Symbol'' \<notin> sys_modules sample_env \<union> builtin_module_names sample_env
   \<and> \<not> endswith ''pkg.sub.Symbol'' ''.*''
   \<and> find_module_of_import sample_env (init_graph sample_env) ''pkg.sub.Symbol'' (Some 0) ''work/proj''
        = Inr (Some ''proj.pkg.sub'',
               (init_graph sample_env)\<lparr>module_cache := [((''pkg.sub'', None), ''proj.pkg.sub'')]\<rparr>)
   \<and> map_of [((''pkg.sub'', None), ''proj.pkg.sub'')]
        (''pkg.sub.Symbol'', extra_path (Some 0) ''work/proj'') = None"
  by code_simp

text \<open>
  C4, amended.  A resolution that reaches the lookup phase changes nothing but the cache: the
  module registry and the search-path list stay as they were, and every cache entry that differs
  afterwards was written for the descriptor's extra directory.  A lookup that succeeds by the
  direct-module match of the first round leaves the returned name under \<open>(name, extraDirectory)\<close>;
  a lookup that finds no file for any shortening returns the original name and leaves the cache
  as it was.
\<close>

theorem resolver_writes_cache_only:
  assumes "imp_name \<notin> sys_modules env" and "imp_name \<notin> builtin_module_names env"
    and "\<not> endswith imp_name ''.*''"
    and "find_module_of_import env g imp_name imp_level fpath = Inr (r, g')"
  shows "modules g' = modules g \<and> paths g' = paths g
     \<and> (\<forall>key. map_of (module_cache g') key \<noteq> map_of (module_cache g) key \<longrightarrow>
           snd key = extra_path imp_level fpath \<and> map_of (module_cache g') key \<noteq> None)
     \<and> (\<forall>v g1. imp_name \<noteq> []
          \<and> map_of (module_cache g) (imp_name, extra_path imp_level fpath) = None
          \<and> get_name_via_module env g imp_name (extra_path imp_level fpath) = Inr (Some v, g1)
          \<and> v \<noteq> []
          \<longrightarrow> r = Some v \<and> map_of (module_cache g') (imp_name, extra_path imp_level fpath) = Some v)
     \<and> (map_of (module_cache g) (imp_name, extra_path imp_level fpath) = None
          \<and> (\<forall>n \<in> set (shortenings imp_name).
                get_name_via_module env g n (extra_path imp_level fpath) = Inr (None, g)
                \<and> get_name_via_package env g n (extra_path imp_level fpath) = Inr (None, g))
          \<longrightarrow> r = Some imp_name \<and> g' = g)"
proof -
  let ?e = "extra_path imp_level fpath"
  have loop: "find_module_of_import_loop env g imp_name ?e imp_name = Inr (r, g')"
    if "map_of (module_cache g) (imp_name, ?e) = None"
    using assms that by (simp add: find_module_of_import_def Let_def)
  have grows: "cache_grows ?e g g'"
  proof (cases "map_of (module_cache g) (imp_name, ?e)")
    case None
    then show ?thesis
      using loop find_module_of_import_loop_grows by blast
  next
    case (Some cached)
    with assms have "g' = g"
      by (simp add: find_module_of_import_def Let_def)
    then show ?thesis
      by (simp add: cache_grows_refl)
  qed
  have first_round: "r = Some v \<and> map_of (module_cache g') (imp_name, ?e) = Some v"
    if "imp_name \<noteq> []"
      and miss: "map_of (module_cache g) (imp_name, ?e) = None"
      and hit: "get_name_via_module env g imp_name ?e = Inr (Some v, g1)"
      and "v \<noteq> []" for v g1
  proof -
    have "find_module_of_import_loop env g imp_name ?e imp_name = Inr (Some v, g1)"
      using \<open>imp_name \<noteq> []\<close> hit \<open>v \<noteq> []\<close> by (intro loop_module_hit) (simp_all add: truthy_def)
    with loop [OF miss] have "r = Some v" and "g' = g1"
      by simp_all
    with hit show ?thesis
      by (simp add: get_name_via_module_stored)
  qed
  have fallback: "r = Some imp_name \<and> g' = g"
    if miss: "map_of (module_cache g) (imp_name, ?e) = None"
      and none: "\<forall>n \<in> set (shortenings imp_name).
                get_name_via_module env g n ?e = Inr (None, g)
                \<and> get_name_via_package env g n ?e = Inr (None, g)"
  proof -
    have "find_module_of_import_loop env g imp_name ?e imp_name = Inr (Some imp_name, g)"
      using none by (intro find_module_of_import_loop_exhausted) blast
    with loop [OF miss] show ?thesis
      by simp
  qed
  from grows first_round fallback show ?thesis
    unfolding cache_grows_def by blast
qed

theorem resolver_writes_cache_only_witness:
  "find_module_of_import sample_env (init_graph sample_env) ''pkg.sub.Symbol'' (Some 0) ''work/proj''
     = Inr (Some ''proj.pkg.sub'',
            (init_graph sample_env)\<lparr>module_cache := [((''pkg.sub'', None), ''proj.pkg.sub'')]\<rparr>)
   \<and> modules ((init_graph sample_env)\<lparr>module_cache := [((''pkg.sub'', None), ''proj.pkg.sub'')]\<rparr>)
       = modules (init_graph sample_env)
   \<and> paths ((init_graph sample_env)\<lparr>module_cache := [((''pkg.sub'', None), ''proj.pkg.sub'')]\<rparr>)
       = paths (init_graph sample_env)"
proof -
  have a: "''pkg.sub.Symbol'' \<notin> sys_modules sample_env"
    by (simp add: sample_env_def)
  have b: "''pkg.sub.Symbol'' \<notin> builtin_module_names sample_env"
    by (simp add: sample_env_def)
  have c: "\<not> endswith ''pkg.sub.Symbol'' ''.*''"
    by (simp add: endswith_def)
  have d: "find_module_of_import sample_env (init_graph sample_env) ''pkg.sub.Symbol'' (Some 0)
      ''work/proj''
     = Inr (Some ''proj.pkg.sub'',
            (init_graph sample_env)\<lparr>module_cache := [((''pkg.sub'', None), ''proj.pkg.sub'')]\<rparr>)"
    by code_simp
  from resolver_writes_cache_only [OF a b c d] d show ?thesis
    by blast
qed

text \<open>
  C5, as the claim states it: after a file is scanned, its module's dependency set does not hold
  the module's own name.  \<open>parse_file\<close> keeps every name the resolver returns: scanning
  \<open>work/src\<close>, whose file \<open>a.py\<close> reads \<open>import a\<close>, registers \<open>src.a\<close> with the dependency set
  \<open>{src.a}\<close>.
\<close>

theorem parse_file_self_edge_counterexample:
  "parse_paths sample_env (init_graph sample_env) [''work/src''] = Inr scanned_src
   \<and> map_of (modules scanned_src) ''src.a''
       = Some \<lparr>mod_name = ''src.a'', file_name = ''a.py'', is_package = False,
                content = ''import a'', mod_imports = {''src.a''}\<rparr>
   \<and> ''src.a'' \<in> {''src.a''}"
  by code_simp

lemma resolve_imports_length:
  "resolve_imports env g fpath infos = Inr (rs, g1) \<Longrightarrow> length rs = length infos"
  by (induction infos arbitrary: g rs) (auto split: sum.splits prod.splits)

text \<open>
  C5, amended.  A scanned file is registered under its derived name with a dependency set that
  holds every name the resolver returned for the file's import descriptors, one resolution per
  descriptor, and nothing else; the module's own name is kept like any other (the orderer, not
  the scanner, drops self-edges).
\<close>

theorem parse_file_records_every_resolved_name:
  assumes "parse_file env g fname fpath = Inr g'"
  shows "\<exists>name infos rs g1 m.
           find_module_name env fname fpath = Inr name
         \<and> list_imports env fname fpath = Inr infos
         \<and> resolve_imports env g fpath infos = Inr (rs, g1)
         \<and> length rs = length infos
         \<and> map_of (modules g') name = Some m
         \<and> mod_name m = name
         \<and> mod_imports m = {imp. Some imp \<in> set rs}
         \<and> (Some name \<in> set rs \<longrightarrow> name \<in> mod_imports m)"
proof -
  from assms obtain name body infos rs g1 where
    n: "find_module_name env fname fpath = Inr name" and
    i: "list_imports env fname fpath = Inr infos" and
    r: "resolve_imports env g fpath infos = Inr (rs, g1)" and
    g': "g' = g1\<lparr>modules := AList.update name
             \<lparr>mod_name = name, file_name = fname, is_package = (fname = ''__init__.py''),
              content = body, mod_imports = the ` (set rs - {None})\<rparr> (modules g1)\<rparr>"
    by (auto simp: parse_file_def split: sum.splits option.splits prod.splits)
  have "the ` (set rs - {None}) = {imp. Some imp \<in> set rs}"
    by force
  with n i r g' resolve_imports_length [OF r] show ?thesis
    by (simp add: update_conv')
qed

theorem parse_file_records_every_resolved_name_witness:
  "\<exists>g' m. parse_file sample_env ((init_graph sample_env)\<lparr>paths := [''work/src'']\<rparr>) ''a.py'' ''work/src''
            = Inr g'
         \<and> map_of (modules g') ''src.a'' = Some m \<and> ''src.a'' \<in> mod_imports m"
proof -
  let ?g = "(init_graph sample_env)\<lparr>paths := [''work/src'']\<rparr>"
  let ?g' = "\<lparr>modules =
        [(''src.a'', \<lparr>mod_name = ''src.a'', file_name = ''a.py'', is_package = False,
                      content = ''import a'', mod_imports = {''src.a''}\<rparr>)],
      module_cache = [((''a'', None), ''src.a'')],
      paths = [''work/src'']\<rparr>"
  have p: "parse_file sample_env ?g ''a.py'' ''work/src'' = Inr ?g'"
    by code_simp
  have n: "find_module_name sample_env ''a.py'' ''work/src'' = Inr ''src.a''"
    by code_simp
  have i: "list_imports sample_env ''a.py'' ''work/src'' = Inr [ImportInfo ''a'' None]"
    by code_simp
  have r: "map_sum id fst (resolve_imports sample_env ?g ''work/src'' [ImportInfo ''a'' None])
      = Inr [Some ''src.a'']"
    by code_simp
  from parse_file_records_every_resolved_name [OF p] n i r
  have "\<exists>m. map_of (modules ?g') ''src.a'' = Some m \<and> ''src.a'' \<in> mod_imports m"
    by (auto split: sum.splits)
  with p show ?thesis
    by blast
qed

section \<open>The resolver, round by round\<close>

subsection \<open>Lookups do not read the cache\<close>

lemma cache_result_eq:
  "cache_result env g n e f full =
     (case map_sum id Some (find_module_name env f (os_path_dirname full)) of
        Inl err \<Rightarrow> Inl err
      | Inr r \<Rightarrow> Inr (r, store g n e r))"
  by (simp add: cache_result_def store_def split: sum.splits)

lemma get_name_via_module_loop_eq:
  "get_name_via_module_loop env g n e f ps =
     (case lookup_paths env f ps of
        Inl err \<Rightarrow> Inl err
      | Inr r \<Rightarrow> Inr (r, store g n e r))"
  by (induction ps) (simp_all add: cache_result_eq store_def)

lemma get_name_via_module_eq:
  "get_name_via_module env g n e =
     (case lookup_module env (paths g) n e of
        Inl err \<Rightarrow> Inl err
      | Inr r \<Rightarrow> Inr (r, store g n e r))"
  by (simp add: get_name_via_module_def lookup_module_def Let_def cache_result_eq
      get_name_via_module_loop_eq)

lemma store_frame [simp]: "paths (store g n e r) = paths g" "modules (store g n e r) = modules g"
  by (simp_all add: store_def split: option.splits)

lemma store_cache:
  "map_of (module_cache (store g n e r)) key =
     (if key = (n, e) \<and> r \<noteq> None then r else map_of (module_cache g) key)"
  by (auto simp: store_def update_conv' split: option.splits)

lemma store_coherent:
  "cache_coherent env g \<Longrightarrow> lookup_module env (paths g) n e = Inr r \<Longrightarrow>
     cache_coherent env (store g n e r)"
  unfolding cache_coherent_def by (auto simp: store_cache)

lemma loop_unfold:
  "find_module_of_import_loop env g imp_name e name =
     (if name = [] then Inr (Some imp_name, g)
      else
        (case lookup_module env (paths g) name e of
           Inl err \<Rightarrow> Inl err
         | Inr r1 \<Rightarrow>
             if truthy r1 then Inr (r1, store g name e r1)
             else
               (case lookup_module env (paths g) (name @ ''.__init__'') e of
                  Inl err \<Rightarrow> Inl err
                | Inr r2 \<Rightarrow>
                    if truthy r2
                    then Inr (r2, store (store g name e r1) (name @ ''.__init__'') e r2)
                    else find_module_of_import_loop env
                           (store (store g name e r1) (name @ ''.__init__'') e r2)
                           imp_name e (rpartition_head CHR ''.'' name))))"
  by (subst find_module_of_import_loop.simps)
     (simp add: get_name_via_module_eq get_name_via_package_def split: sum.splits)

lemma loop_invariant:
  assumes "find_module_of_import_loop env g imp_name e name = Inr (r, g')"
    and "I g"
    and "\<And>g n r. I g \<Longrightarrow> lookup_module env (paths g) n e = Inr r \<Longrightarrow> I (store g n e r)"
  shows "I g'"
  using assms
proof (induction env g imp_name e name rule: find_module_of_import_loop.induct)
  case (1 env g imp_name e name)
  note step = "1.prems"(3)
  show ?case
  proof (cases "name = []")
    case True
    with "1.prems"(1,2) show ?thesis
      by (simp add: loop_unfold)
  next
    case ne: False
    from "1.prems"(1) ne obtain r1 where l1: "lookup_module env (paths g) name e = Inr r1"
      by (subst (asm) loop_unfold) (auto split: sum.splits)
    have i1: "I (store g name e r1)"
      using "1.prems"(2) l1 by (rule step)
    show ?thesis
    proof (cases "truthy r1")
      case True
      with "1.prems"(1) ne l1 i1 show ?thesis
        by (subst (asm) loop_unfold) auto
    next
      case nt1: False
      from "1.prems"(1) ne l1 nt1 obtain r2 where
        l2: "lookup_module env (paths g) (name @ ''.__init__'') e = Inr r2"
        by (subst (asm) loop_unfold) (auto split: sum.splits)
      have "lookup_module env (paths (store g name e r1)) (name @ ''.__init__'') e = Inr r2"
        using l2 by simp
      with i1 have i2: "I (store (store g name e r1) (name @ ''.__init__'') e r2)"
        by (rule step)
      show ?thesis
      proof (cases "truthy r2")
        case True
        with "1.prems"(1) ne l1 nt1 l2 i2 show ?thesis
          by (subst (asm) loop_unfold) auto
      next
        case nt2: False
        have m: "get_name_via_module env g name e = Inr (r1, store g name e r1)"
          using l1 by (simp add: get_name_via_module_eq)
        have p: "get_name_via_package env (store g name e r1) name e =
            Inr (r2, store (store g name e r1) (name @ ''.__init__'') e r2)"
          using l2 by (simp add: get_name_via_package_def get_name_via_module_eq)
        from "1.prems"(1) ne l1 nt1 l2 nt2 have
          "find_module_of_import_loop env (store (store g name e r1) (name @ ''.__init__'') e r2)
             imp_name e (rpartition_head CHR ''.'' name) = Inr (r, g')"
          by (subst (asm) loop_unfold) simp
        then show ?thesis
          using i2 step by (rule "1.IH" [OF ne m refl nt1 p refl nt2])
      qed
    qed
  qed
qed

lemma find_module_of_import_loop_coherent:
  assumes "find_module_of_import_loop env g imp_name e name = Inr (r, g')"
    and "cache_coherent env g"
  shows "cache_coherent env g' \<and> paths g' = paths g"
proof -
  have "cache_coherent env g' \<and> paths g' = paths g"
    using assms(1)
  proof (rule loop_invariant [where I = "\<lambda>h. cache_coherent env h \<and> paths h = paths g"])
    show "cache_coherent env g \<and> paths g = paths g"
      using assms(2) by simp
  next
    fix h n r
    assume "cache_coherent env h \<and> paths h = paths g" and "lookup_module env (paths h) n e = Inr r"
    then show "cache_coherent env (store h n e r) \<and> paths (store h n e r) = paths g"
      by (simp add: store_coherent)
  qed
  then show ?thesis .
qed


subsection \<open>The search path\<close>

lemma lookup_paths_none:
  "(\<And>q. q \<in> set ps \<Longrightarrow> \<not> path_isfile env q \<Longrightarrow> \<not> path_exists env (os_path_join q f)) \<Longrightarrow>
     lookup_paths env f ps = Inr None"
  by (induction ps) auto

lemma lookup_paths_first:
  "(\<And>q. q \<in> set front \<Longrightarrow> path_isfile env q \<or> \<not> path_exists env (os_path_join q f)) \<Longrightarrow>
   \<not> path_isfile env p \<Longrightarrow> path_exists env (os_path_join p f) \<Longrightarrow>
     lookup_paths env f (front @ p # back) =
       map_sum id Some (find_module_name env f (os_path_dirname (os_path_join p f)))"
  by (induction front) auto

lemma lookup_paths_append:
  "lookup_paths env f ps = Inr (Some v) \<Longrightarrow> lookup_paths env f (ps @ qs) = Inr (Some v)"
  by (induction ps) (auto split: if_splits)

lemma lookup_module_append:
  "lookup_module env ps n e = Inr (Some v) \<Longrightarrow> lookup_module env (ps @ qs) n e = Inr (Some v)"
  by (auto simp: lookup_module_def Let_def lookup_paths_append split: if_splits)

lemma lookup_module_plain:
  "lookup_module env ps n None = lookup_paths env (str_replace CHR ''.'' os_sep n @ ''.py'') ps"
  by (simp add: lookup_module_def truthy_def)

lemma find_module_name_plain_nonempty:
  "\<not> str_contains ''__init__.py'' fname \<Longrightarrow> find_module_name env fname fpath = Inr name \<Longrightarrow> name \<noteq> []"
  by (auto simp: find_module_name_def Let_def split: sum.splits)

subsection \<open>Shortening\<close>

text \<open>
  C8, as the claim states it: with no \<open>pkg/sub/Symbol.py\<close> and no \<open>pkg/sub/Symbol\<close> on the search
  path and a file \<open>pkg/sub.py\<close> on it, the reference \<open>pkg.sub.Symbol\<close> resolves to \<open>pkg.sub\<close>.  The
  name returned is the one that name derivation gives the file found, and derivation climbs
  above the search-path entry: with \<open>work/proj\<close> on the path, where \<open>main.py\<close> lies beside \<open>pkg\<close>,
  the reference resolves to \<open>proj.pkg.sub\<close>.
\<close>

theorem resolver_shortening_to_pkg_sub_counterexample:
  "''pkg.sub.Symbol'' \<notin> sys_modules sample_env \<union> builtin_module_names sample_env
   \<and> list_all (\<lambda>q. \<not> path_exists sample_env (os_path_join q ''pkg/sub/Symbol.py'')
                   \<and> \<not> path_exists sample_env (os_path_join q ''pkg/sub/Symbol''))
         (paths (init_graph sample_env))
   \<and> list_ex (\<lambda>q. path_exists sample_env (os_path_join q ''pkg/sub.py''))
         (paths (init_graph sample_env))
   \<and> find_module_of_import sample_env (init_graph sample_env) ''pkg.sub.Symbol'' (Some 0) ''work/proj''
       = Inr (Some ''proj.pkg.sub'',
              (init_graph sample_env)\<lparr>module_cache := [((''pkg.sub'', None), ''proj.pkg.sub'')]\<rparr>)"
  by code_simp

text \<open>
  C8, amended.  Take a reference \<open>pkg.sub.Symbol\<close> of three plain segments, absolute, neither
  loaded nor built in and no wildcard, in a graph whose cache is coherent (as scanning keeps
  it).  When no directory of the search path holds \<open>pkg/sub/Symbol.py\<close> or the marker file of a
  package \<open>pkg/sub/Symbol\<close>, and \<open>p\<close> is the first directory of the search path that holds
  \<open>pkg/sub.py\<close>, the resolver strips the last segment, finds that file, and returns the canonical
  name that name derivation gives it, stored in the cache under \<open>(pkg.sub, None)\<close> (or it raises
  as name derivation does).  That name is \<open>pkg.sub\<close> when \<open>pkg\<close> is the outermost package there:
  when the listing of \<open>p\<close> does not pass the derivation's test for Python files.
\<close>

theorem resolver_shortening:
  assumes "CHR ''.'' \<notin> set pkg \<union> set sub \<union> set symb" and "CHR ''/'' \<notin> set pkg \<union> set sub"
    and "pkg \<noteq> []"
    and "\<not> str_contains ''__init__.py'' (pkg @ ''/'' @ sub @ ''.py'')"
    and "pkg @ ''.'' @ sub @ ''.'' @ symb \<notin> sys_modules env \<union> builtin_module_names env"
    and "\<not> endswith (pkg @ ''.'' @ sub @ ''.'' @ symb) ''.*''"
    and "imp_level = None \<or> imp_level = Some 0"
    and "cache_coherent env g"
    and "\<forall>q \<in> set (paths g). \<not> path_isfile env q \<longrightarrow>
           \<not> path_exists env (os_path_join q (pkg @ ''/'' @ sub @ ''/'' @ symb @ ''.py''))
         \<and> \<not> path_exists env (os_path_join q (pkg @ ''/'' @ sub @ ''/'' @ symb @ ''/__init__.py''))"
    and "paths g = front @ p # back"
    and "\<forall>q \<in> set front. path_isfile env q
           \<or> \<not> path_exists env (os_path_join q (pkg @ ''/'' @ sub @ ''.py''))"
    and "\<not> path_isfile env p" and "path_exists env (os_path_join p (pkg @ ''/'' @ sub @ ''.py''))"
  shows "find_module_of_import env g (pkg @ ''.'' @ sub @ ''.'' @ symb) imp_level fpath =
           (case find_module_name env (pkg @ ''/'' @ sub @ ''.py'')
                   (os_path_dirname (os_path_join p (pkg @ ''/'' @ sub @ ''.py''))) of
              Inl err \<Rightarrow> Inl err
            | Inr name \<Rightarrow>
                Inr (Some name,
                     g\<lparr>module_cache :=
                         AList.update (pkg @ ''.'' @ sub, None) name (module_cache g)\<rparr>))
       \<and> (p \<noteq> [] \<and> last p \<noteq> CHR ''/'' \<and> listdir env p = Some outer \<and> \<not> contain_python outer
            \<longrightarrow> find_module_name env (pkg @ ''/'' @ sub @ ''.py'')
                    (os_path_dirname (os_path_join p (pkg @ ''/'' @ sub @ ''.py'')))
                  = Inr (pkg @ ''.'' @ sub))"
proof
  let ?name = "pkg @ ''.'' @ sub @ ''.'' @ symb"
  let ?file = "pkg @ ''/'' @ sub @ ''.py''"
  have e: "extra_path imp_level fpath = None"
    using assms(7) by (auto simp: extra_path_def)
  have r3: "str_replace CHR ''.'' os_sep ?name = pkg @ ''/'' @ sub @ ''/'' @ symb"
    using assms(1) by (simp add: str_replace_dotted str_replace_plain)
  have "str_replace CHR ''.'' os_sep ''.__init__'' = ''/__init__''"
    by (simp add: str_replace_def os_sep_def)
  with r3 have r3i: "str_replace CHR ''.'' os_sep (?name @ ''.__init__'') @ ''.py''
      = pkg @ ''/'' @ sub @ ''/'' @ symb @ ''/__init__.py''"
    using str_replace_append [of "CHR ''.''" os_sep ?name "''.__init__''"] by simp
  have r2: "str_replace CHR ''.'' os_sep (pkg @ ''.'' @ sub) = pkg @ ''/'' @ sub"
    using assms(1) by (simp add: str_replace_dotted str_replace_plain)
  have nomod: "lookup_module env (paths g) ?name None = Inr None"
    unfolding lookup_module_plain r3 using assms(9)
    by (intro lookup_paths_none) simp
  have nopkg: "lookup_module env (paths g) (?name @ ''.__init__'') None = Inr None"
    unfolding lookup_module_plain r3i using assms(9)
    by (intro lookup_paths_none) simp
  have miss: "map_of (module_cache g) (?name, None) = None"
  proof (cases "map_of (module_cache g) (?name, None)")
    case None
    then show ?thesis .
  next
    case (Some v)
    with assms(8) have "lookup_module env (paths g) ?name None = Inr (Some v)"
      by (simp add: cache_coherent_def)
    with nomod show ?thesis
      by simp
  qed
  have sub: "lookup_module env (paths g) (pkg @ ''.'' @ sub) None =
      map_sum id Some (find_module_name env ?file (os_path_dirname (os_path_join p ?file)))"
  proof -
    have "lookup_paths env ?file (front @ p # back) =
      map_sum id Some (find_module_name env ?file (os_path_dirname (os_path_join p ?file)))"
      using assms(11,12,13) by (intro lookup_paths_first) auto
    then show ?thesis
      unfolding lookup_module_plain assms(10) r2 by simp
  qed
  have short: "rpartition_head CHR ''.'' ?name = pkg @ ''.'' @ sub"
    using rpartition_head_append [of "CHR ''.''" symb "pkg @ ''.'' @ sub"] assms(1) by simp
  have "find_module_of_import env g ?name imp_level fpath =
      find_module_of_import_loop env g ?name None ?name"
    using assms(5,6) miss e by (simp add: find_module_of_import_def)
  also have "\<dots> = find_module_of_import_loop env g ?name None (pkg @ ''.'' @ sub)"
    using nomod nopkg short by (subst loop_unfold) (simp add: truthy_def store_def)
  also have "\<dots> =
      (case find_module_name env ?file (os_path_dirname (os_path_join p ?file)) of
         Inl err \<Rightarrow> Inl err
       | Inr name \<Rightarrow>
           Inr (Some name,
                g\<lparr>module_cache :=
                    AList.update (pkg @ ''.'' @ sub, None) name (module_cache g)\<rparr>))"
  proof (cases "find_module_name env ?file (os_path_dirname (os_path_join p ?file))")
    case (Inl err)
    with sub show ?thesis
      by (subst loop_unfold) simp
  next
    case (Inr name)
    then have "name \<noteq> []"
      using assms(4) find_module_name_plain_nonempty by blast
    with sub Inr show ?thesis
      by (subst loop_unfold) (simp add: truthy_def store_def)
  qed
  finally show "find_module_of_import env g ?name imp_level fpath =
      (case find_module_name env ?file (os_path_dirname (os_path_join p ?file)) of
         Inl err \<Rightarrow> Inl err
       | Inr name \<Rightarrow>
           Inr (Some name,
                g\<lparr>module_cache :=
                    AList.update (pkg @ ''.'' @ sub, None) name (module_cache g)\<rparr>))" .
next
  let ?file = "pkg @ ''/'' @ sub @ ''.py''"
  show "p \<noteq> [] \<and> last p \<noteq> CHR ''/'' \<and> listdir env p = Some outer \<and> \<not> contain_python outer
     \<longrightarrow> find_module_name env ?file (os_path_dirname (os_path_join p ?file))
           = Inr (pkg @ ''.'' @ sub)"
  proof
    assume a: "p \<noteq> [] \<and> last p \<noteq> CHR ''/'' \<and> listdir env p = Some outer \<and> \<not> contain_python outer"
    have hd: "hd ?file \<noteq> CHR ''/''"
      using assms(2,3) by (cases pkg) auto
    have j: "os_path_join p ?file = p @ ''/'' @ ?file"
      using a hd by (intro os_path_join_plain) simp_all
    have "last pkg \<in> set pkg"
      using assms(3) by simp
    with assms(2) have "last pkg \<noteq> CHR ''/''"
      by auto
    then have "os_path_dirname ((p @ ''/'' @ pkg) @ ''/'' @ (sub @ ''.py'')) = p @ ''/'' @ pkg"
      using assms(2,3) by (intro os_path_dirname_file) auto
    then have d: "os_path_dirname (p @ ''/'' @ ?file) = p @ ''/'' @ pkg"
      by simp
    have "split_sep CHR ''/'' (p @ CHR ''/'' # pkg) = split_sep CHR ''/'' p @ split_sep CHR ''/'' pkg"
      by (rule split_sep_append)
    then have sp: "split_sep CHR ''/'' (p @ CHR ''/'' # pkg) = split_sep CHR ''/'' p @ [pkg]"
      using assms(2) by (simp add: split_sep_plain)
    have j0: "join_sep os_sep (split_sep CHR ''/'' p) = p"
      using join_split [of "CHR ''/''" p] by (simp add: os_sep_def)
    have loop: "find_module_name_loop env (split_sep CHR ''/'' p @ [pkg]) [] = Inr [pkg]"
      using find_module_name_loop_stop [of "split_sep CHR ''/'' p @ [pkg]" env outer "[]"] a j0
      by (simp add: butlast_append)
    have stem: "split_first ''.py'' ?file = pkg @ ''/'' @ sub"
      using split_first_found [of "CHR ''.''" "pkg @ ''/'' @ sub" "''py''" "[]"] assms(1) by simp
    have sep: "str_contains os_sep (pkg @ ''/'' @ sub)"
      using str_contains_append [OF str_contains_here, of "''/''" pkg sub] by (simp add: os_sep_def)
    have lst: "last (split_sep CHR ''/'' (pkg @ ''/'' @ sub)) = sub"
      using last_split_sep [of "CHR ''/''" sub pkg] assms(2) by simp
    show "find_module_name env ?file (os_path_dirname (os_path_join p ?file))
           = Inr (pkg @ ''.'' @ sub)"
      unfolding j d using assms(4) loop stem sep lst
      by (simp add: find_module_name_def sp Let_def)
  qed
qed

theorem resolver_shortening_witness:
  "find_module_of_import sample_env ((init_graph sample_env)\<lparr>paths := [''opt/site'']\<rparr>)
      ''pkg.sub.Symbol'' (Some 0) ''opt/site''
     = Inr (Some ''pkg.sub'',
            (init_graph sample_env)\<lparr>paths := [''opt/site''],
                                      module_cache := [((''pkg.sub'', None), ''pkg.sub'')]\<rparr>)"
proof -
  let ?g = "(init_graph sample_env)\<lparr>paths := [''opt/site'']\<rparr>"
  have h1: "CHR ''.'' \<notin> set ''pkg'' \<union> set ''sub'' \<union> set ''Symbol''"
    by simp
  have h2: "CHR ''/'' \<notin> set ''pkg'' \<union> set ''sub''"
    by simp
  have h3: "''pkg'' \<noteq> []"
    by simp
  have h4: "\<not> str_contains ''__init__.py'' (''pkg'' @ ''/'' @ ''sub'' @ ''.py'')"
    by (simp add: startswith_def)
  have h5: "''pkg'' @ ''.'' @ ''sub'' @ ''.'' @ ''Symbol''
      \<notin> sys_modules sample_env \<union> builtin_module_names sample_env"
    by (simp add: sample_env_def)
  have h6: "\<not> endswith (''pkg'' @ ''.'' @ ''sub'' @ ''.'' @ ''Symbol'') ''.*''"
    by (simp add: endswith_def)
  have h7: "Some 0 = None \<or> Some (0::nat) = Some 0"
    by simp
  have h8: "cache_coherent sample_env ?g"
    by (simp add: cache_coherent_def init_graph_def)
  have h9: "\<forall>q \<in> set (paths ?g). \<not> path_isfile sample_env q \<longrightarrow>
        \<not> path_exists sample_env
            (os_path_join q (''pkg'' @ ''/'' @ ''sub'' @ ''/'' @ ''Symbol'' @ ''.py''))
      \<and> \<not> path_exists sample_env
            (os_path_join q (''pkg'' @ ''/'' @ ''sub'' @ ''/'' @ ''Symbol'' @ ''/__init__.py''))"
    by (simp add: sample_env_def os_path_join_def startswith_def endswith_def os_sep_def)
  have h10: "paths ?g = [] @ ''opt/site'' # []"
    by simp
  have h11: "\<forall>q \<in> set []. path_isfile sample_env q
      \<or> \<not> path_exists sample_env (os_path_join q (''pkg'' @ ''/'' @ ''sub'' @ ''.py''))"
    by simp
  have h12: "\<not> path_isfile sample_env ''opt/site''"
    by (simp add: sample_env_def)
  have h13: "path_exists sample_env (os_path_join ''opt/site'' (''pkg'' @ ''/'' @ ''sub'' @ ''.py''))"
    by (simp add: sample_env_def os_path_join_def startswith_def endswith_def os_sep_def)
  have outer: "''opt/site'' \<noteq> [] \<and> last ''opt/site'' \<noteq> CHR ''/''
      \<and> listdir sample_env ''opt/site'' = Some [''pkg''] \<and> \<not> contain_python [''pkg'']"
    by (simp add: sample_env_def contain_python_def startswith_def)
  from resolver_shortening [OF h1 h2 h3 h4 h5 h6 h7 h8 h9 h10 h11 h12 h13,
      of "''opt/site''" "[''pkg'']"] outer
  show ?thesis
    by (simp add: init_graph_def)
qed

section \<open>The ordering\<close>

subsection \<open>The batches of \<open>toposort\<close>\<close>

lemma no_deps_subset: "no_deps data \<subseteq> fst ` set data"
  by (auto simp: no_deps_def)

lemma finite_no_deps: "finite (no_deps data)"
  by (simp add: no_deps_def)

lemma keys_remove_ordered: "fst ` set (remove_ordered S data) = fst ` set data - S"
  by (force simp: remove_ordered_def)

lemma distinct_remove_ordered:
  "distinct (map fst data) \<Longrightarrow> distinct (map fst (remove_ordered S data))"
proof -
  have "map fst (remove_ordered S data) = filter (\<lambda>k. k \<notin> S) (map fst data)"
    by (induction data) (auto simp: remove_ordered_def)
  then show "distinct (map fst data) \<Longrightarrow> ?thesis"
    by simp
qed

lemma deps_closed_remove_ordered:
  "deps_closed data \<Longrightarrow> deps_closed (remove_ordered S data)"
  unfolding deps_closed_def list_all_iff keys_remove_ordered
  by (auto simp: remove_ordered_def)

lemma toposort_loop_done:
  "no_deps data = {} \<Longrightarrow> toposort_loop data = (if data = [] then Inr [] else Inl CircularDependencyError)"
  by (subst toposort_loop.simps) simp

lemma toposort_loop_step:
  "no_deps data \<noteq> {} \<Longrightarrow>
     toposort_loop data =
       (case toposort_loop (remove_ordered (no_deps data) data) of
          Inl e \<Rightarrow> Inl e | Inr batches \<Rightarrow> Inr (no_deps data # batches))"
  by (subst toposort_loop.simps) simp

lemma toposort_loop_error: "toposort_loop data = Inl err \<Longrightarrow> err = CircularDependencyError"
proof (induction data rule: toposort_loop.induct)
  case (1 data)
  show ?case
  proof (cases "no_deps data = {}")
    case True
    with "1.prems" show ?thesis
      by (auto simp: toposort_loop_done split: if_splits)
  next
    case False
    with "1.prems" have "toposort_loop (remove_ordered (no_deps data) data) = Inl err"
      by (auto simp: toposort_loop_step split: sum.splits)
    with "1.IH" [OF False] show ?thesis
      by simp
  qed
qed

lemma toposort_loop_set: "toposort_loop data = Inr batches \<Longrightarrow> set (flatten batches) = fst ` set data"
proof (induction data arbitrary: batches rule: toposort_loop.induct)
  case (1 data)
  show ?case
  proof (cases "no_deps data = {}")
    case True
    with "1.prems" show ?thesis
      by (auto simp: toposort_loop_done flatten_def split: if_splits)
  next
    case False
    with "1.prems" obtain rest where
      r: "toposort_loop (remove_ordered (no_deps data) data) = Inr rest" and
      b: "batches = no_deps data # rest"
      by (auto simp: toposort_loop_step split: sum.splits)
    from "1.IH" [OF False r] have "set (flatten rest) = fst ` set data - no_deps data"
      by (simp add: keys_remove_ordered)
    with b no_deps_subset [of data] show ?thesis
      by (auto simp: flatten_def finite_no_deps)
  qed
qed

lemma toposort_loop_distinct: "toposort_loop data = Inr batches \<Longrightarrow> distinct (flatten batches)"
proof (induction data arbitrary: batches rule: toposort_loop.induct)
  case (1 data)
  show ?case
  proof (cases "no_deps data = {}")
    case True
    with "1.prems" show ?thesis
      by (auto simp: toposort_loop_done flatten_def split: if_splits)
  next
    case False
    with "1.prems" obtain rest where
      r: "toposort_loop (remove_ordered (no_deps data) data) = Inr rest" and
      b: "batches = no_deps data # rest"
      by (auto simp: toposort_loop_step split: sum.splits)
    have "set (flatten rest) = fst ` set data - no_deps data"
      using toposort_loop_set [OF r] by (simp add: keys_remove_ordered)
    moreover have "distinct (flatten rest)"
      using "1.IH" [OF False r] .
    ultimately show ?thesis
      using b by (auto simp: flatten_def finite_no_deps)
  qed
qed

lemma before_append_left: "a \<in> set us \<Longrightarrow> b \<in> set vs \<Longrightarrow> before (us @ vs) a b"
  unfolding before_def by blast

lemma before_append_right: "before vs a b \<Longrightarrow> before (us @ vs) a b"
  unfolding before_def by (metis append.assoc Un_iff set_append)

lemma toposort_loop_before:
  "toposort_loop data = Inr batches \<Longrightarrow> distinct (map fst data) \<Longrightarrow> deps_closed data \<Longrightarrow>
   (item, dep) \<in> set data \<Longrightarrow> b \<in> dep \<Longrightarrow> before (flatten batches) b item"
proof (induction data arbitrary: batches dep rule: toposort_loop.induct)
  case (1 data)
  let ?S = "no_deps data"
  have bkey: "b \<in> fst ` set data"
    using "1.prems"(3,4,5) by (auto simp: deps_closed_def list_all_iff)
  have "?S \<noteq> {}"
  proof
    assume "?S = {}"
    with "1.prems"(1,4) show False
      by (auto simp: toposort_loop_done split: if_splits)
  qed
  with "1.prems"(1) obtain rest where
    r: "toposort_loop (remove_ordered ?S data) = Inr rest" and
    bs: "batches = ?S # rest"
    by (auto simp: toposort_loop_step split: sum.splits)
  have rest_set: "set (flatten rest) = fst ` set data - ?S"
    using toposort_loop_set [OF r] by (simp add: keys_remove_ordered)
  have item_later: "item \<notin> ?S"
  proof
    assume "item \<in> ?S"
    then obtain d where "(item, d) \<in> set data" and "d = {}"
      by (auto simp: no_deps_def)
    with "1.prems"(2,4) have "dep = {}"
      by (meson eq_key_imp_eq_value)
    with "1.prems"(5) show False by simp
  qed
  then have item_rest: "item \<in> set (flatten rest)"
    using rest_set "1.prems"(4) by force
  have fl: "flatten batches = sorted_list_of_set ?S @ flatten rest"
    using bs by (simp add: flatten_def)
  show ?case
  proof (cases "b \<in> ?S")
    case True
    then have "b \<in> set (sorted_list_of_set ?S)"
      by (simp add: finite_no_deps)
    then show ?thesis
      unfolding fl using item_rest by (rule before_append_left)
  next
    case False
    have "(item, dep - ?S) \<in> set (remove_ordered ?S data)"
      using "1.prems"(4) item_later by (force simp: remove_ordered_def)
    moreover have "b \<in> dep - ?S"
      using False "1.prems"(5) by simp
    ultimately have "before (flatten rest) b item"
      using "1.IH" [OF \<open>?S \<noteq> {}\<close> r] "1.prems"(2,3)
      by (simp add: distinct_remove_ordered deps_closed_remove_ordered)
    then show ?thesis
      unfolding fl by (rule before_append_right)
  qed
qed

lemma drop_self_Union:
  "fst ` set data \<union> \<Union> (snd ` set (map (\<lambda>(item, dep). (item, dep - {item})) data))
     = fst ` set data \<union> \<Union> (snd ` set data)"
  by force

lemma set_sorted_list_of_set_subset: "set (sorted_list_of_set A) \<subseteq> A"
  by (cases "finite A") simp_all

lemma prepare_fst:
  "map fst (toposort_prepare data) =
     map fst data @
     sorted_list_of_set
       (\<Union> (snd ` set (map (\<lambda>(item, dep). (item, dep - {item})) data)) - fst ` set data)"
  by (simp add: toposort_prepare_def Let_def split_beta comp_def image_image)

lemma prepare_keys:
  assumes "list_all (\<lambda>(item, dep). finite dep) data"
  shows "fst ` set (toposort_prepare data) = fst ` set data \<union> \<Union> (snd ` set data)"
proof -
  let ?data1 = "map (\<lambda>(item, dep). (item, dep - {item})) data"
  let ?extra = "\<Union> (snd ` set ?data1) - fst ` set data"
  have "finite (\<Union> (snd ` set ?data1))"
    using assms by (auto simp: list_all_iff)
  then have fin: "finite ?extra"
    by simp
  have "fst ` set (toposort_prepare data) = set (map fst (toposort_prepare data))"
    by simp
  also have "\<dots> = fst ` set data \<union> ?extra"
    unfolding prepare_fst using fin by simp
  also have "\<dots> = fst ` set data \<union> \<Union> (snd ` set ?data1)"
    by auto
  also have "\<dots> = fst ` set data \<union> \<Union> (snd ` set data)"
    by (rule drop_self_Union)
  finally show ?thesis .
qed

lemma prepare_distinct:
  assumes "distinct (map fst data)"
  shows "distinct (map fst (toposort_prepare data))"
proof -
  let ?extra = "\<Union> (snd ` set (map (\<lambda>(item, dep). (item, dep - {item})) data)) - fst ` set data"
  have "set (sorted_list_of_set ?extra) \<inter> set (map fst data) = {}"
    using set_sorted_list_of_set_subset [of ?extra] by auto
  then show ?thesis
    unfolding prepare_fst using assms by (simp add: Int_commute)
qed

lemma prepare_closed:
  assumes "list_all (\<lambda>(item, dep). finite dep) data"
  shows "deps_closed (toposort_prepare data)"
proof -
  have "dep \<subseteq> fst ` set data \<union> \<Union> (snd ` set data)"
    if "(item, dep) \<in> set (toposort_prepare data)" for item dep
  proof -
    from that have "(\<exists>d. (item, d) \<in> set data \<and> dep = d - {item}) \<or> dep = {}"
      unfolding toposort_prepare_def Let_def by auto
    then show ?thesis
      by force
  qed
  then show ?thesis
    unfolding deps_closed_def list_all_iff prepare_keys [OF assms] by auto
qed

lemma prepare_edge:
  "(item, dep) \<in> set data \<Longrightarrow> (item, dep - {item}) \<in> set (toposort_prepare data)"
  unfolding toposort_prepare_def Let_def by force

lemma toposort_flatten_cases:
  assumes "toposort_flatten data = Inr order"
  shows "(data = [] \<and> order = []) \<or>
         (\<exists>batches. toposort_loop (toposort_prepare data) = Inr batches \<and> order = flatten batches)"
  using assms by (auto simp: toposort_flatten_def toposort_def flatten_def split: sum.splits if_splits)

lemma toposort_flatten_set:
  assumes "toposort_flatten data = Inr order" and "list_all (\<lambda>(item, dep). finite dep) data"
  shows "set order = fst ` set data \<union> \<Union> (snd ` set data)"
proof (cases "data = []")
  case True
  with assms(1) show ?thesis
    by (simp add: toposort_flatten_def toposort_def)
next
  case False
  with toposort_flatten_cases [OF assms(1)] obtain batches where
    "toposort_loop (toposort_prepare data) = Inr batches" and "order = flatten batches"
    by auto
  then show ?thesis
    using toposort_loop_set prepare_keys [OF assms(2)] by simp
qed

lemma toposort_flatten_distinct:
  assumes "toposort_flatten data = Inr order"
  shows "distinct order"
  using toposort_flatten_cases [OF assms] toposort_loop_distinct by auto

lemma toposort_flatten_before:
  assumes "toposort_flatten data = Inr order" and "list_all (\<lambda>(item, dep). finite dep) data"
    and "distinct (map fst data)" and "(item, dep) \<in> set data" and "b \<in> dep" and "b \<noteq> item"
  shows "before order b item"
proof -
  from toposort_flatten_cases [OF assms(1)] assms(4) obtain batches where
    l: "toposort_loop (toposort_prepare data) = Inr batches" and o: "order = flatten batches"
    by auto
  have "before (flatten batches) b item"
    using l prepare_distinct [OF assms(3)] prepare_closed [OF assms(2)] prepare_edge [OF assms(4)]
  proof (rule toposort_loop_before)
    show "b \<in> dep - {item}"
      using assms(5,6) by simp
  qed
  with o show ?thesis
    by simp
qed

lemma before_position:
  assumes "before xs a b" and "distinct xs"
  shows "length (takeWhile (\<lambda>x. x \<noteq> a) xs) < length (takeWhile (\<lambda>x. x \<noteq> b) xs)"
proof -
  from assms(1) obtain us vs where xs: "xs = us @ vs" and a: "a \<in> set us" and b: "b \<in> set vs"
    unfolding before_def by blast
  from assms(2) xs b have nb: "b \<notin> set us"
    by auto
  have "takeWhile (\<lambda>x. x \<noteq> a) xs = takeWhile (\<lambda>x. x \<noteq> a) us"
    unfolding xs using a by (intro takeWhile_append1 [where x = a]) simp_all
  moreover have "length (takeWhile (\<lambda>x. x \<noteq> a) us) < length us"
  proof -
    have "takeWhile (\<lambda>x. x \<noteq> a) us \<noteq> us"
      using a by auto
    then have "length (takeWhile (\<lambda>x. x \<noteq> a) us) \<noteq> length us"
      by (metis takeWhile_eq_take take_all_iff le_refl)
    with length_takeWhile_le [of "\<lambda>x. x \<noteq> a" us] show ?thesis
      by linarith
  qed
  moreover have "takeWhile (\<lambda>x. x \<noteq> b) xs = us @ takeWhile (\<lambda>x. x \<noteq> b) vs"
    unfolding xs using nb by (intro takeWhile_append2) auto
  ultimately show ?thesis
    by simp
qed

subsection \<open>Pack generation\<close>

lemma dependency_data_eq:
  "distinct (map fst (modules g)) \<Longrightarrow>
     dependency_data g = map (\<lambda>(key, m). (key, mod_imports m)) (modules g)"
  unfolding dependency_data_def by (auto simp: map_of_eq_Some_iff [THEN iffD2] comp_def)

lemma dependency_data_finite:
  "registry_ok g \<Longrightarrow> list_all (\<lambda>(item, dep). finite dep) (dependency_data g)"
  by (auto simp: registry_ok_def dependency_data_eq list_all_iff)

lemma dependency_data_keys: "map fst (dependency_data g) = map fst (modules g)"
  by (simp add: dependency_data_def comp_def)

lemma generate_data_loop_ok:
  "generate_data_loop g names = Inr out \<Longrightarrow>
     set names \<subseteq> fst ` set (modules g) \<and>
     out = map (\<lambda>name. to_dict (the (map_of (modules g) name))) names"
proof (induction names arbitrary: out)
  case Nil
  then show ?case by simp
next
  case (Cons name names)
  then show ?case
    by (auto split: option.splits sum.splits dest: map_of_SomeD simp: rev_image_eqI)
qed

lemma generate_data_loop_missing:
  "x \<in> set names \<Longrightarrow> x \<notin> fst ` set (modules g) \<Longrightarrow> generate_data_loop g names = Inl KeyError"
proof (induction names)
  case Nil
  then show ?case by simp
next
  case (Cons name names)
  show ?case
  proof (cases "map_of (modules g) name")
    case None
    then show ?thesis by simp
  next
    case (Some m)
    then have "name \<in> fst ` set (modules g)"
      by (auto dest: map_of_SomeD simp: rev_image_eqI)
    with Cons have "generate_data_loop g names = Inl KeyError"
      by auto
    with Some show ?thesis by simp
  qed
qed

lemma registry_name:
  "registry_ok g \<Longrightarrow> name \<in> fst ` set (modules g) \<Longrightarrow>
     dict_name (to_dict (the (map_of (modules g) name))) = name"
proof -
  assume ok: "registry_ok g" and "name \<in> fst ` set (modules g)"
  then obtain m where "(name, m) \<in> set (modules g)"
    by auto
  with ok have "map_of (modules g) name = Some m" and "mod_name m = name"
    by (auto simp: registry_ok_def list_all_iff)
  then show ?thesis
    by (simp add: to_dict_def)
qed

lemma generate_data_names:
  assumes "registry_ok g" and "build_dependency_data g = Inr order"
    and "generate_data_loop g order = Inr out"
  shows "map dict_name out = order"
proof -
  from generate_data_loop_ok [OF assms(3)] have
    sub: "set order \<subseteq> fst ` set (modules g)" and
    out: "out = map (\<lambda>name. to_dict (the (map_of (modules g) name))) order"
    by simp_all
  have "map dict_name out = map (\<lambda>name. name) order"
    unfolding out map_map using sub registry_name [OF assms(1)] by (intro map_cong) auto
  then show ?thesis
    by simp
qed

lemma position_in_names:
  "record_position out name = length (takeWhile (\<lambda>n. n \<noteq> name) (map dict_name out))"
  by (simp add: record_position_def takeWhile_map comp_def)

subsection \<open>Scanning keeps the registry well-formed\<close>

lemma set_update_subset: "set (AList.update k v al) \<subseteq> insert (k, v) (set al)"
  by (induction al) auto

lemma registry_ok_init: "registry_ok (init_graph env)"
  by (simp add: registry_ok_def init_graph_def)

lemma parse_file_registry_ok:
  assumes "registry_ok g" and "parse_file env g fname fpath = Inr g'"
  shows "registry_ok g'"
proof -
  from assms(2) obtain name body rs g1 infos where
    r: "resolve_imports env g fpath infos = Inr (rs, g1)" and
    g': "g' = g1\<lparr>modules := AList.update name
             \<lparr>mod_name = name, file_name = fname, is_package = (fname = ''__init__.py''),
              content = body, mod_imports = the ` (set rs - {None})\<rparr> (modules g1)\<rparr>"
    by (auto simp: parse_file_def split: sum.splits option.splits prod.splits)
  have m: "modules g1 = modules g"
    using resolve_imports_frame [OF r] by simp
  show ?thesis
    using assms(1) set_update_subset
    unfolding registry_ok_def g' m list_all_iff
    by (fastforce simp: distinct_update)
qed

lemma parse_files_registry_ok:
  "registry_ok g \<Longrightarrow> parse_files env g root files = Inr g' \<Longrightarrow> registry_ok g'"
  by (induction files arbitrary: g)
     (auto split: if_splits sum.splits dest: parse_file_registry_ok)

lemma parse_walk_registry_ok:
  "registry_ok g \<Longrightarrow> parse_walk env g entries = Inr g' \<Longrightarrow> registry_ok g'"
proof (induction entries arbitrary: g)
  case Nil
  then show ?case by simp
next
  case (Cons entry entries)
  obtain root files where entry: "entry = (root, files)"
    by (cases entry)
  from Cons.prems(2) obtain g1 where
    f: "parse_files env (g\<lparr>paths := paths g @ [root]\<rparr>) root files = Inr g1" and
    w: "parse_walk env g1 entries = Inr g'"
    unfolding entry by (auto split: sum.splits)
  have "registry_ok (g\<lparr>paths := paths g @ [root]\<rparr>)"
    using Cons.prems(1) by (simp add: registry_ok_def)
  then have "registry_ok g1"
    using f by (rule parse_files_registry_ok)
  then show ?case
    using w by (rule Cons.IH)
qed

lemma parse_paths_registry_ok:
  "registry_ok g \<Longrightarrow> parse_paths env g roots = Inr g' \<Longrightarrow> registry_ok g'"
  by (induction roots arbitrary: g)
     (auto split: if_splits sum.splits dest: parse_walk_registry_ok)

lemma sample_scans:
  "parse_paths sample_env (init_graph sample_env) [''work/src''] = Inr scanned_src"
  "parse_paths sample_env (init_graph sample_env) [''work/lib''] = Inr scanned_lib"
  "parse_paths sample_env (init_graph sample_env) [''work/proj''] = Inr scanned_proj"
  by code_simp+

subsection \<open>Dangling edges\<close>

lemma generate_data_registered_once:
  assumes "registry_ok g" and gd: "generate_data g = Inr out"
  shows "distinct (map dict_name out)
       \<and> set (map dict_name out) = fst ` set (modules g)
       \<and> set out = (\<lambda>(key, m). to_dict m) ` set (modules g)"
proof (intro conjI)
  from gd obtain order where o: "build_dependency_data g = Inr order"
    and l: "generate_data_loop g order = Inr out"
    by (auto simp: generate_data_def split: sum.splits)
  have names: "map dict_name out = order"
    using assms(1) o l by (rule generate_data_names)
  have so: "set order = fst ` set (modules g)"
  proof -
    have "set order = fst ` set (dependency_data g) \<union> \<Union> (snd ` set (dependency_data g))"
      using toposort_flatten_set [OF o [unfolded build_dependency_data_def]
          dependency_data_finite [OF assms(1)]] .
    moreover have "set order \<subseteq> fst ` set (modules g)"
      using generate_data_loop_ok [OF l] by simp
    moreover have "fst ` set (dependency_data g) = fst ` set (modules g)"
      using dependency_data_keys [of g] by (metis list.set_map)
    ultimately show ?thesis
      by blast
  qed
  show "distinct (map dict_name out)"
    unfolding names using toposort_flatten_distinct [OF o [unfolded build_dependency_data_def]] .
  show "set (map dict_name out) = fst ` set (modules g)"
    unfolding names by (rule so)
  show "set out = (\<lambda>(key, m). to_dict m) ` set (modules g)"
  proof -
    have "out = map (\<lambda>name. to_dict (the (map_of (modules g) name))) order"
      using generate_data_loop_ok [OF l] by simp
    then have "set out = (\<lambda>name. to_dict (the (map_of (modules g) name))) ` fst ` set (modules g)"
      using so by simp
    also have "\<dots> = (\<lambda>(key, m). to_dict m) ` set (modules g)"
      using assms(1) by (force simp: registry_ok_def image_image)
    finally show ?thesis .
  qed
qed

text \<open>
  C1.  The resolver's fallback hands back a name that no module has, \<open>parse_file\<close> records it
  among the imports of the module, and nothing between the resolver and pack generation takes
  it out again.  \<open>toposort_flatten\<close> lists a name that occurs only as a dependency as an item of
  its order, and \<open>generate_data\<close> reads \<open>self._modules[module]\<close> for every item of the order,
  without a guard.  So a registry with a dangling edge never yields a pack: whenever the orderer
  returns an order, the unregistered name is in it and \<open>generate_data\<close> raises \<open>KeyError\<close>; the
  only other outcome is the \<open>CircularDependencyError\<close> of an orderer that found a cycle.  The
  outcome the claim describes, one record for every registered module and none for the
  unregistered name, is reached only by registries without a dangling edge (lemma
  \<open>generate_data_registered_once\<close>).
\<close>

theorem dangling_edge_raises:
  assumes "registry_ok g"
    and "(key, m) \<in> set (modules g)" and "x \<in> mod_imports m" and "x \<notin> fst ` set (modules g)"
  shows "(\<forall>order. build_dependency_data g = Inr order
            \<longrightarrow> x \<in> set order \<and> generate_data g = Inl KeyError)
       \<and> (\<forall>err. build_dependency_data g = Inl err
            \<longrightarrow> err = CircularDependencyError \<and> generate_data g = Inl CircularDependencyError)
       \<and> (\<forall>out. generate_data g \<noteq> Inr out)"
proof -
  have edge: "x \<in> fst ` set (dependency_data g) \<union> \<Union> (snd ` set (dependency_data g))"
  proof -
    have "(key, mod_imports m) \<in> set (dependency_data g)"
      using assms(1,2) by (force simp: registry_ok_def dependency_data_eq)
    with assms(3) show ?thesis
      by force
  qed
  have ordered: "x \<in> set order \<and> generate_data g = Inl KeyError"
    if o: "build_dependency_data g = Inr order" for order
  proof -
    have "x \<in> set order"
      using toposort_flatten_set [OF o [unfolded build_dependency_data_def]
          dependency_data_finite [OF assms(1)]] edge
      by simp
    with assms(4) o show ?thesis
      by (simp add: generate_data_def generate_data_loop_missing)
  qed
  have cyclic: "err = CircularDependencyError \<and> generate_data g = Inl CircularDependencyError"
    if e: "build_dependency_data g = Inl err" for err
  proof -
    from e have "err = CircularDependencyError"
      by (auto simp: build_dependency_data_def toposort_flatten_def toposort_def
          split: sum.splits if_splits dest: toposort_loop_error)
    with e show ?thesis
      by (simp add: generate_data_def)
  qed
  have "generate_data g \<noteq> Inr out" for out
    using ordered cyclic by (cases "build_dependency_data g") auto
  with ordered cyclic show ?thesis
    by blast
qed

theorem dangling_edge_raises_witness:
  "parse_paths sample_env (init_graph sample_env) [''work/lib''] = Inr scanned_lib
   \<and> find_module_of_import sample_env
        ((init_graph sample_env)\<lparr>paths := paths (init_graph sample_env) @ [''work/lib'']\<rparr>)
        ''x'' None ''work/lib''
       = Inr (Some ''x'',
              (init_graph sample_env)\<lparr>paths := paths (init_graph sample_env) @ [''work/lib'']\<rparr>)
   \<and> map fst (modules scanned_lib) = [''lib.b'']
   \<and> dependency_data scanned_lib = [(''lib.b'', {''x''})]
   \<and> build_dependency_data scanned_lib = Inr [''x'', ''lib.b'']
   \<and> generate_data scanned_lib = Inl KeyError"
proof -
  have scan: "parse_paths sample_env (init_graph sample_env) [''work/lib''] = Inr scanned_lib"
    by code_simp
  have fallback: "find_module_of_import sample_env
        ((init_graph sample_env)\<lparr>paths := paths (init_graph sample_env) @ [''work/lib'']\<rparr>)
        ''x'' None ''work/lib''
       = Inr (Some ''x'',
              (init_graph sample_env)\<lparr>paths := paths (init_graph sample_env) @ [''work/lib'']\<rparr>)"
    by code_simp
  have keys: "map fst (modules scanned_lib) = [''lib.b'']"
    by (simp add: scanned_lib_def)
  have data: "dependency_data scanned_lib = [(''lib.b'', {''x''})]"
    by (simp add: dependency_data_def scanned_lib_def)
  have order: "build_dependency_data scanned_lib = Inr [''x'', ''lib.b'']"
    by code_simp
  have ok: "registry_ok scanned_lib"
    by (simp add: registry_ok_def scanned_lib_def)
  have entry: "(''lib.b'', \<lparr>mod_name = ''lib.b'', file_name = ''b.py'', is_package = False,
                  content = ''import x'', mod_imports = {''x''}\<rparr>) \<in> set (modules scanned_lib)"
    by (simp add: scanned_lib_def)
  have imp: "''x'' \<in> mod_imports \<lparr>mod_name = ''lib.b'', file_name = ''b.py'', is_package = False,
                  content = ''import x'', mod_imports = {''x''}\<rparr>"
    by simp
  have missing: "''x'' \<notin> fst ` set (modules scanned_lib)"
    by (simp add: scanned_lib_def)
  from dangling_edge_raises [OF ok entry imp missing] order
  have "generate_data scanned_lib = Inl KeyError"
    by blast
  with scan fallback keys data order show ?thesis
    by blast
qed

subsection \<open>Topological validity\<close>

text \<open>
  C6, as the claim states it: for every recorded edge between registered modules the
  dependency's record comes strictly first.  A recorded edge can lead from a module to itself
  (C5), and pack generation succeeds on it, since the orderer drops self-dependencies: scanning
  \<open>work/src\<close> records the edge from \<open>src.a\<close> to \<open>src.a\<close>, the output is the one record of \<open>src.a\<close>,
  and its position is not less than itself.
\<close>

theorem dependency_precedes_dependent_counterexample:
  "parse_paths sample_env (init_graph sample_env) [''work/src''] = Inr scanned_src
   \<and> generate_data scanned_src = Inr [ModuleDict ''src.a'' False ''import a'']
   \<and> ''src.a'' \<in> mod_imports (the (map_of (modules scanned_src) ''src.a''))
   \<and> record_position [ModuleDict ''src.a'' False ''import a''] ''src.a'' = 0
   \<and> \<not> record_position [ModuleDict ''src.a'' False ''import a''] ''src.a''
        < record_position [ModuleDict ''src.a'' False ''import a''] ''src.a''"
  by code_simp

text \<open>
  C6, amended.  Whenever pack generation produces an output sequence, then for every recorded
  edge from a module \<open>A\<close> to a different name \<open>B\<close>, the record of \<open>B\<close> is in the sequence at a
  position strictly less than that of the record of \<open>A\<close>.  (\<open>B\<close> is then a registered module: with
  a dangling edge no sequence is produced.)
\<close>

theorem dependency_precedes_dependent:
  assumes "registry_ok g" and "generate_data g = Inr out"
    and "(A, mA) \<in> set (modules g)" and "B \<in> mod_imports mA" and "A \<noteq> B"
  shows "record_position out B < record_position out A \<and> record_position out A < length out"
proof -
  from assms(2) obtain order where o: "build_dependency_data g = Inr order"
    and l: "generate_data_loop g order = Inr out"
    by (auto simp: generate_data_def split: sum.splits)
  have names: "map dict_name out = order"
    using assms(1) o l by (rule generate_data_names)
  have tf: "toposort_flatten (dependency_data g) = Inr order"
    using o by (simp add: build_dependency_data_def)
  have edge: "(A, mod_imports mA) \<in> set (dependency_data g)"
    using assms(1,3) by (force simp: registry_ok_def dependency_data_eq)
  have "distinct (map fst (dependency_data g))"
    using assms(1) by (simp add: dependency_data_keys registry_ok_def)
  with tf dependency_data_finite [OF assms(1)] have "before order B A"
    using edge assms(4) assms(5) [symmetric] by (rule toposort_flatten_before)
  then have "length (takeWhile (\<lambda>n. n \<noteq> B) order) < length (takeWhile (\<lambda>n. n \<noteq> A) order)"
    using toposort_flatten_distinct [OF tf] by (rule before_position)
  moreover have "length (takeWhile (\<lambda>n. n \<noteq> A) order) < length order"
  proof -
    have "A \<in> set order"
      using toposort_flatten_set [OF tf dependency_data_finite [OF assms(1)]] edge by force
    then have "takeWhile (\<lambda>n. n \<noteq> A) order \<noteq> order"
      by auto
    then have "length (takeWhile (\<lambda>n. n \<noteq> A) order) \<noteq> length order"
      by (metis takeWhile_eq_take take_all_iff le_refl)
    with length_takeWhile_le [of "\<lambda>n. n \<noteq> A" order] show ?thesis
      by linarith
  qed
  moreover have "length out = length order"
    using names by (metis length_map)
  ultimately show ?thesis
    unfolding position_in_names names by simp
qed

theorem dependency_precedes_dependent_witness:
  "registry_ok scanned_proj
   \<and> generate_data scanned_proj
       = Inr [ModuleDict ''proj.pkg.sub'' False [],
              ModuleDict ''proj.main'' False ''from pkg.sub import Symbol'']
   \<and> record_position
         [ModuleDict ''proj.pkg.sub'' False [],
          ModuleDict ''proj.main'' False ''from pkg.sub import Symbol''] ''proj.pkg.sub''
       < record_position
         [ModuleDict ''proj.pkg.sub'' False [],
          ModuleDict ''proj.main'' False ''from pkg.sub import Symbol''] ''proj.main''"
proof -
  let ?main = "\<lparr>mod_name = ''proj.main'', file_name = ''main.py'', is_package = False,
                 content = ''from pkg.sub import Symbol'', mod_imports = {''proj.pkg.sub''}\<rparr>"
  have ok: "registry_ok scanned_proj"
    by (simp add: registry_ok_def scanned_proj_def)
  have gd: "generate_data scanned_proj
       = Inr [ModuleDict ''proj.pkg.sub'' False [],
              ModuleDict ''proj.main'' False ''from pkg.sub import Symbol'']"
    by code_simp
  have reg: "(''proj.main'', ?main) \<in> set (modules scanned_proj)"
    by (simp add: scanned_proj_def)
  have dep: "''proj.pkg.sub'' \<in> mod_imports ?main"
    by simp
  have ne: "''proj.main'' \<noteq> ''proj.pkg.sub''"
    by simp
  from dependency_precedes_dependent [OF ok gd reg dep ne] ok gd show ?thesis
    by blast
qed

section \<open>Determinism\<close>

subsection \<open>Scanning keeps the cache coherent\<close>


lemma cache_coherent_modules [simp]:
  "cache_coherent env (g\<lparr>modules := ms\<rparr>) = cache_coherent env g"
  by (simp add: cache_coherent_def)

lemma cache_coherent_append:
  "cache_coherent env g \<Longrightarrow> cache_coherent env (g\<lparr>paths := paths g @ qs\<rparr>)"
  by (simp add: cache_coherent_def lookup_module_append)

lemma find_module_of_import_coherent:
  assumes "find_module_of_import env g imp_name imp_level fpath = Inr (r, g')"
    and "cache_coherent env g"
  shows "cache_coherent env g'"
proof (cases "imp_name \<in> sys_modules env \<or> imp_name \<in> builtin_module_names env
    \<or> endswith imp_name ''.*''")
  case True
  with assms show ?thesis
    by (auto simp: find_module_of_import_def split: if_splits)
next
  case False
  show ?thesis
  proof (cases "map_of (module_cache g) (imp_name, extra_path imp_level fpath)")
    case None
    with assms(1) False have
      "find_module_of_import_loop env g imp_name (extra_path imp_level fpath) imp_name = Inr (r, g')"
      by (simp add: find_module_of_import_def Let_def)
    then show ?thesis
      using assms(2) find_module_of_import_loop_coherent by blast
  next
    case (Some cached)
    with assms False show ?thesis
      by (simp add: find_module_of_import_def Let_def)
  qed
qed

lemma resolve_imports_coherent:
  "resolve_imports env g fpath infos = Inr (rs, g1) \<Longrightarrow> cache_coherent env g \<Longrightarrow>
     cache_coherent env g1"
proof (induction infos arbitrary: g rs)
  case Nil
  then show ?case by simp
next
  case (Cons imp imps)
  from Cons.prems(1) obtain r ga rs' where
    f: "find_module_of_import env g (info_name imp) (info_level imp) fpath = Inr (r, ga)" and
    rest: "resolve_imports env ga fpath imps = Inr (rs', g1)"
    by (auto split: sum.splits prod.splits)
  from f Cons.prems(2) have "cache_coherent env ga"
    by (rule find_module_of_import_coherent)
  with rest show ?case
    by (rule Cons.IH)
qed

lemma parse_file_coherent:
  "parse_file env g fname fpath = Inr g' \<Longrightarrow> cache_coherent env g \<Longrightarrow> cache_coherent env g'"
  by (auto simp: parse_file_def split: sum.splits option.splits prod.splits
      dest: resolve_imports_coherent)

lemma parse_files_coherent:
  "parse_files env g root files = Inr g' \<Longrightarrow> cache_coherent env g \<Longrightarrow> cache_coherent env g'"
  by (induction files arbitrary: g) (auto split: if_splits sum.splits dest: parse_file_coherent)

lemma parse_walk_coherent:
  "parse_walk env g entries = Inr g' \<Longrightarrow> cache_coherent env g \<Longrightarrow> cache_coherent env g'"
proof (induction entries arbitrary: g)
  case Nil
  then show ?case by simp
next
  case (Cons entry entries)
  obtain root files where entry: "entry = (root, files)"
    by (cases entry)
  from Cons.prems(1) obtain g1 where
    f: "parse_files env (g\<lparr>paths := paths g @ [root]\<rparr>) root files = Inr g1" and
    w: "parse_walk env g1 entries = Inr g'"
    unfolding entry by (auto split: sum.splits)
  have "cache_coherent env (g\<lparr>paths := paths g @ [root]\<rparr>)"
    using Cons.prems(2) by (rule cache_coherent_append)
  with f have "cache_coherent env g1"
    by (rule parse_files_coherent)
  with w show ?case
    by (rule Cons.IH)
qed

lemma parse_paths_coherent:
  "parse_paths env g roots = Inr g' \<Longrightarrow> cache_coherent env g \<Longrightarrow> cache_coherent env g'"
  by (induction roots arbitrary: g) (auto split: if_splits sum.splits dest: parse_walk_coherent)

subsection \<open>A file that a lookup finds never gets the empty name\<close>





















subsection \<open>The order does not depend on how the dictionary is laid out\<close>













end
